theory Spec2Isabelle
  imports Complex_Main
begin

section \<open>Python and tensor values\<close>

text \<open>
  The adapter of \<^verbatim>\<open>src/adapter/dagde.py\<close> (class
  \<^verbatim>\<open>DistanceAwareGradualDomainEnsemble\<close>) is embedded function by function.
  Tensor entries, logits, probabilities, \<^verbatim>\<open>beta\<close>, distances and the momentum
  are real numbers: the arithmetic is the exact one that the floating-point code
  approximates, so rounding, overflow and underflow are outside the model. The two Python
  floats whose special values the code itself can produce or compare against (the batch
  loss, which \<^verbatim>\<open>mean()\<close> makes NaN on an empty tensor, and the validation
  score, compared with \<^verbatim>\<open>-np.inf\<close>) are values of \<open>pyfloat\<close>.
  Every exception the code can raise is a constructor of \<open>error\<close>; a function that
  raises returns \<open>Inl\<close> of it, and the state it had mutated by then is not kept.
  \<open>NonFinite\<close> is no exception: it is the outcome of a tensor expression that divides
  by zero, whose entries torch makes NaN or infinite and a table of reals cannot hold.
  A two-dimensional tensor is the list of its rows. Printing and the TensorBoard writer
  are left out.
\<close>

datatype error =
    IndexError
  | ZeroDivisionError
  | UnboundLocalError
  | AttributeError
  | ValueError
  | RuntimeError
  | NonFinite

datatype pyfloat = Fin real | PosInf | NegInf | NaN

text \<open>IEEE comparison \<^verbatim>\<open>a > b\<close>: false whenever one side is NaN.\<close>

fun pf_gt :: "pyfloat \<Rightarrow> pyfloat \<Rightarrow> bool" where
  "pf_gt NaN _ = False"
| "pf_gt _ NaN = False"
| "pf_gt (Fin a) (Fin b) = (a > b)"
| "pf_gt (Fin _) NegInf = True"
| "pf_gt (Fin _) PosInf = False"
| "pf_gt PosInf PosInf = False"
| "pf_gt PosInf _ = True"
| "pf_gt NegInf _ = False"

text \<open>\<^verbatim>\<open>a + b\<close> on floats.\<close>

fun pf_add :: "pyfloat \<Rightarrow> pyfloat \<Rightarrow> pyfloat" where
  "pf_add NaN _ = NaN"
| "pf_add _ NaN = NaN"
| "pf_add (Fin a) (Fin b) = Fin (a + b)"
| "pf_add PosInf NegInf = NaN"
| "pf_add NegInf PosInf = NaN"
| "pf_add PosInf _ = PosInf"
| "pf_add _ PosInf = PosInf"
| "pf_add NegInf _ = NegInf"
| "pf_add _ NegInf = NegInf"

text \<open>\<^verbatim>\<open>a * n\<close> for a float \<open>a\<close> and a non-negative int \<open>n\<close>
  (\<^verbatim>\<open>loss.item() * mask.sum().item()\<close>).\<close>

fun pf_mul_nat :: "pyfloat \<Rightarrow> nat \<Rightarrow> pyfloat" where
  "pf_mul_nat NaN _ = NaN"
| "pf_mul_nat (Fin a) n = Fin (a * real n)"
| "pf_mul_nat PosInf n = (if n = 0 then NaN else PosInf)"
| "pf_mul_nat NegInf n = (if n = 0 then NaN else NegInf)"

text \<open>\<^verbatim>\<open>a / n\<close> for a Python float (or int) \<open>a\<close> and an int \<open>n\<close>: Python raises
  ZeroDivisionError on \<open>n = 0\<close>, whatever \<open>a\<close> is.\<close>

fun pf_div_nat :: "pyfloat \<Rightarrow> nat \<Rightarrow> error + pyfloat" where
  "pf_div_nat a 0 = Inl ZeroDivisionError"
| "pf_div_nat (Fin a) n = Inr (Fin (a / real n))"
| "pf_div_nat a _ = Inr a"

text \<open>Python list indexing \<^verbatim>\<open>xs[i]\<close>: a negative index counts from the end,
  an index out of range raises IndexError.\<close>

definition py_index :: "'a list \<Rightarrow> int \<Rightarrow> error + 'a" where
  "py_index xs i =
     (if 0 \<le> i \<and> i < int (length xs) then Inr (xs ! nat i)
      else if i < 0 \<and> - int (length xs) \<le> i then Inr (xs ! nat (int (length xs) + i))
      else Inl IndexError)"

type_synonym row = "real list"
type_synonym tensor2 = "row list"

text \<open>
  A batch of an indexed loader is the collated triple \<^verbatim>\<open>(idx, data, label)\<close>; it is
  kept as the list of its samples \<open>(id, input, label)\<close>, sample ids being non-negative
  indices into \<^verbatim>\<open>Z\<close> and \<^verbatim>\<open>z\<close>. A loader is the list of the batches one
  pass over it yields, the same at every pass.
\<close>

type_synonym 'x batch = "(nat \<times> 'x \<times> nat) list"
type_synonym 'x loader = "'x batch list"

definition ids :: "'x batch \<Rightarrow> nat list" where
  "ids b = map fst b"

definition inputs :: "'x batch \<Rightarrow> 'x list" where
  "inputs b = map (\<lambda>s. fst (snd s)) b"

definition labels :: "'x batch \<Rightarrow> nat list" where
  "labels b = map (\<lambda>s. snd (snd s)) b"

section \<open>The adapter state\<close>

text \<open>The fields of \<^verbatim>\<open>__init__\<close> (lines 12-23); the device, the validator object and
  the log writer carry no state the algorithm reads.\<close>

record ('m, 'x) adapter =
  model :: 'm
  Z :: tensor2
  z :: tensor2
  beta :: real
  trainloader_list :: "'x loader list"
  norm_dist_list :: "real list"
  momentum :: real
  pl_acc_list :: "real list"
  momentum_record_list :: "real list"

definition init :: "'m \<Rightarrow> tensor2 \<Rightarrow> tensor2 \<Rightarrow> real \<Rightarrow> 'x loader list \<Rightarrow> real list
    \<Rightarrow> ('m, 'x) adapter" where
  "init mdl Z0 z0 b loaders dists =
     \<lparr>model = mdl, Z = Z0, z = z0, beta = b, trainloader_list = loaders,
      norm_dist_list = dists, momentum = 0, pl_acc_list = [],
      momentum_record_list = []\<rparr>"

section \<open>Tensor operations\<close>

text \<open>\<^verbatim>\<open>torch.amax(t, 1)\<close>, \<^verbatim>\<open>torch.amin(t, 1)\<close> on one row; the callers
  raise on a row of width 0, as torch does on a reduction over an empty dimension.\<close>

definition amax :: "row \<Rightarrow> real" where
  "amax r = Max (set r)"

definition amin :: "row \<Rightarrow> real" where
  "amin r = Min (set r)"

text \<open>\<^verbatim>\<open>torch.argmax(t, dim=1)\<close> on one row: the index of the first maximal entry.\<close>

definition argmax :: "row \<Rightarrow> nat" where
  "argmax r = length (takeWhile (\<lambda>x. x \<noteq> amax r) r)"

text \<open>\<^verbatim>\<open>torch.amax(t, 1) - torch.amin(t, 1)\<close> (lines 129 and 145).\<close>

definition confidence :: "tensor2 \<Rightarrow> error + real list" where
  "confidence t =
     (if [] \<in> set t then Inl IndexError
      else Inr (map (\<lambda>r. amax r - amin r) t))"

definition softmax :: "row \<Rightarrow> row" where
  "softmax r = map (\<lambda>x. exp x / (\<Sum>y\<leftarrow>r. exp y)) r"

definition log_softmax :: "row \<Rightarrow> row" where
  "log_softmax r = map (\<lambda>x. x - ln (\<Sum>y\<leftarrow>r. exp y)) r"

text \<open>\<^verbatim>\<open>F.nll_loss(logp, target, reduction='none')\<close>: entry \<open>i\<close> is
  \<open>- logp[i][target[i]]\<close>; a batch-size mismatch and a target outside the classes raise.\<close>

definition nll_loss :: "tensor2 \<Rightarrow> nat list \<Rightarrow> error + real list" where
  "nll_loss logp target =
     (if length logp \<noteq> length target then Inl ValueError
      else if list_ex (\<lambda>(r, t). length r \<le> t) (zip logp target) then Inl IndexError
      else Inr (map (\<lambda>(r, t). - (r ! t)) (zip logp target)))"

text \<open>\<^verbatim>\<open>.mean()\<close> of a one-dimensional tensor: the sum over the number of entries,
  NaN when there is none.\<close>

definition mean :: "real list \<Rightarrow> pyfloat" where
  "mean xs = (if xs = [] then NaN else Fin (sum_list xs / real (length xs)))"

text \<open>\<^verbatim>\<open>T[idx]\<close> read with an index tensor: the rows at the ids, IndexError when an
  id is out of range.\<close>

definition gather :: "tensor2 \<Rightarrow> nat list \<Rightarrow> error + tensor2" where
  "gather T idx =
     (if list_all (\<lambda>i. i < length T) idx then Inr (map (\<lambda>i. T ! i) idx)
      else Inl IndexError)"

text \<open>\<^verbatim>\<open>T[idx] = rows\<close>: the rows are written at the ids, in order (on a repeated id
  the last write stays). A row of the width of the table is written as it is, a row of
  width 1 is broadcast over that width, and a row of any other width raises, as does an id
  out of range; nothing is written when the assignment raises.\<close>

definition fit_row :: "nat \<Rightarrow> row \<Rightarrow> row" where
  "fit_row n r = (if length r = n then r else replicate n (hd r))"

definition scatter :: "tensor2 \<Rightarrow> nat list \<Rightarrow> tensor2 \<Rightarrow> error + tensor2" where
  "scatter T idx rows =
     (if \<not> list_all (\<lambda>i. i < length T) idx then Inl IndexError
      else if list_ex (\<lambda>(i, r). length r \<noteq> length (T ! i) \<and> length r \<noteq> 1) (zip idx rows)
        then Inl RuntimeError
      else Inr (foldl (\<lambda>T' (i, r). T'[i := fit_row (length (T ! i)) r]) T (zip idx rows)))"

text \<open>A row divided by a scalar, as \<^verbatim>\<open>input / denom\<close> does it: a zero divisor
  makes every entry NaN or infinite.\<close>

definition div_row :: "row \<Rightarrow> real \<Rightarrow> error + row" where
  "div_row r d = (if d = 0 \<and> r \<noteq> [] then Inl NonFinite else Inr (map (\<lambda>x. x / d) r))"

text \<open>\<^verbatim>\<open>F.normalize(x, p=1)\<close> on one row, by the documentation and the source of
  torch: \<^verbatim>\<open>denom = input.norm(p, dim, keepdim=True).clamp_min(eps)\<close>, then
  \<^verbatim>\<open>input / denom\<close>, with the default \<^verbatim>\<open>eps = 1e-12\<close>.\<close>

definition normalize_eps :: real where
  "normalize_eps = 1 / 10 ^ 12"

definition l1_norm :: "row \<Rightarrow> real" where
  "l1_norm r = (\<Sum>x\<leftarrow>r. \<bar>x\<bar>)"

definition normalize_l1 :: "row \<Rightarrow> error + row" where
  "normalize_l1 r = div_row r (max (l1_norm r) normalize_eps)"

fun normalize_rows :: "tensor2 \<Rightarrow> error + tensor2" where
  "normalize_rows [] = Inr []"
| "normalize_rows (r # rs) =
     (case normalize_l1 r of
        Inl e \<Rightarrow> Inl e
      | Inr v \<Rightarrow>
          (case normalize_rows rs of
             Inl e \<Rightarrow> Inl e
           | Inr vs \<Rightarrow> Inr (v # vs)))"

text \<open>\<^verbatim>\<open>torch.quantile(t, q)\<close> with its default linear interpolation: on the sorted
  values, position \<open>q * (n - 1)\<close>, interpolating between the neighbours below and above.
  An empty input and a \<open>q\<close> outside \<open>[0, 1]\<close> raise.\<close>

definition quantile :: "real list \<Rightarrow> real \<Rightarrow> error + real" where
  "quantile xs q =
     (if xs = [] \<or> q < 0 \<or> 1 < q then Inl RuntimeError
      else
        (let s = sort xs;
             pos = q * real (length xs - 1);
             lo = nat \<lfloor>pos\<rfloor>;
             hi = nat \<lceil>pos\<rceil>
         in Inr (s ! lo + (pos - real lo) * (s ! hi - s ! lo))))"

section \<open>External collaborators\<close>

text \<open>
  The classifier, the optimizer and the validator are not code of this class; the adapter
  is embedded over any choice of them. \<open>forward_eval\<close> and \<open>forward_train\<close> are the
  forward pass on one input in \<^verbatim>\<open>eval()\<close> and \<^verbatim>\<open>train()\<close> mode (one logits
  row per input of a batch); \<open>new_optimizer\<close> is
  \<^verbatim>\<open>torch.optim.Adam(model.parameters(), lr=args.adapt_lr)\<close>; \<open>optimizer_step\<close>
  is \<^verbatim>\<open>zero_grad(); loss.backward(); step()\<close> for the pseudo-label loss of a batch,
  a function of the model, the optimizer state, the batch inputs, the ensemble targets and
  alpha; \<open>validator\<close> is the \<^verbatim>\<open>IMValidator\<close> score of the concatenated logits.
\<close>

record ('m, 'o, 'x) collab =
  forward_eval :: "'m \<Rightarrow> 'x \<Rightarrow> row"
  forward_train :: "'m \<Rightarrow> 'x \<Rightarrow> row"
  new_optimizer :: "'m \<Rightarrow> 'o"
  optimizer_step :: "'m \<Rightarrow> 'o \<Rightarrow> 'x list \<Rightarrow> tensor2 \<Rightarrow> real \<Rightarrow> 'm \<times> 'o"
  validator :: "tensor2 \<Rightarrow> pyfloat"

section \<open>The pseudo-label loss\<close>

text \<open>\<^verbatim>\<open>_pseudo_label_loss\<close> (lines 144-149): the per-sample negative
  log-likelihood of the teacher label, multiplied by the mask, then \<^verbatim>\<open>.mean()\<close>.\<close>

definition pseudo_label_loss :: "tensor2 \<Rightarrow> tensor2 \<Rightarrow> real \<Rightarrow> error + (pyfloat \<times> bool list)" where
  "pseudo_label_loss student_logits ensemble_probs alpha =
     (case confidence ensemble_probs of
        Inl e \<Rightarrow> Inl e
      | Inr conf \<Rightarrow>
          (let msk = map (\<lambda>c. alpha \<le> c) conf;
               teacher_pred = map argmax ensemble_probs
           in case nll_loss (map log_softmax student_logits) teacher_pred of
                Inl e \<Rightarrow> Inl e
              | Inr nll \<Rightarrow>
                  Inr (mean (map2 (\<lambda>l m. l * (if m then 1 else 0)) nll msk), msk)))"

section \<open>The ensemble update\<close>

text \<open>The right-hand side of line 116 on one gathered row \<open>a\<close> of \<open>Z\<close> and one row \<open>p\<close>
  of \<open>probs\<close>, followed by the assignment back into the row of \<open>Z\<close>: rows of one width
  combine entry by entry, a \<open>p\<close> of width 1 is broadcast over \<open>a\<close>, and every other pair of
  widths raises (in the sum, or in the assignment when \<open>a\<close> has width 1).\<close>

definition ema_row :: "real \<Rightarrow> row \<Rightarrow> row \<Rightarrow> error + row" where
  "ema_row mom a p =
     (if length p = length a then Inr (map2 (\<lambda>u v. mom * u + (1 - mom) * v) a p)
      else if length p = 1 then Inr (map (\<lambda>u. mom * u + (1 - mom) * hd p) a)
      else Inl RuntimeError)"

fun ema_rows :: "real \<Rightarrow> tensor2 \<Rightarrow> tensor2 \<Rightarrow> error + tensor2" where
  "ema_rows mom (a # old) (p # probs) =
     (case ema_row mom a p of
        Inl e \<Rightarrow> Inl e
      | Inr r \<Rightarrow>
          (case ema_rows mom old probs of
             Inl e \<Rightarrow> Inl e
           | Inr rs \<Rightarrow> Inr (r # rs)))"
| "ema_rows mom old probs = Inr []"

text \<open>The body of the inner loop of \<^verbatim>\<open>_update_Z\<close> (lines 113-117) on one batch,
  on the pair of tables \<open>(Z, z)\<close>.\<close>

definition update_batch :: "('x \<Rightarrow> row) \<Rightarrow> real \<Rightarrow> 'x batch \<Rightarrow> tensor2 \<times> tensor2
    \<Rightarrow> error + tensor2 \<times> tensor2" where
  "update_batch fwd mom b T =
     (let probs = map (\<lambda>x. softmax (fwd x)) (inputs b) in
      case gather (fst T) (ids b) of
        Inl e \<Rightarrow> Inl e
      | Inr old \<Rightarrow>
     (case ema_rows mom old probs of
        Inl e \<Rightarrow> Inl e
      | Inr new \<Rightarrow>
     (case scatter (fst T) (ids b) new of
        Inl e \<Rightarrow> Inl e
      | Inr Zt \<Rightarrow>
     (case gather Zt (ids b) of
        Inl e \<Rightarrow> Inl e
      | Inr cur \<Rightarrow>
     (case normalize_rows cur of
        Inl e \<Rightarrow> Inl e
      | Inr unit_rows \<Rightarrow>
     (case scatter (snd T) (ids b) unit_rows of
        Inl e \<Rightarrow> Inl e
      | Inr zt \<Rightarrow> Inr (Zt, zt)))))))"

fun update_batches :: "('x \<Rightarrow> row) \<Rightarrow> real \<Rightarrow> 'x batch list \<Rightarrow> tensor2 \<times> tensor2
    \<Rightarrow> error + tensor2 \<times> tensor2" where
  "update_batches fwd mom [] T = Inr T"
| "update_batches fwd mom (b # bs) T =
     (case update_batch fwd mom b T of
        Inl e \<Rightarrow> Inl e
      | Inr T' \<Rightarrow> update_batches fwd mom bs T')"

text \<open>The outer loop of \<^verbatim>\<open>_update_Z\<close> over \<^verbatim>\<open>enumerate(trainloader_list)\<close>:
  a domain before \<^verbatim>\<open>domain_idx\<close> is skipped.\<close>

fun update_loaders :: "('x \<Rightarrow> row) \<Rightarrow> real \<Rightarrow> int \<Rightarrow> (nat \<times> 'x loader) list
    \<Rightarrow> tensor2 \<times> tensor2 \<Rightarrow> error + tensor2 \<times> tensor2" where
  "update_loaders fwd mom domain_idx [] T = Inr T"
| "update_loaders fwd mom domain_idx ((d, loader) # rest) T =
     (if int d < domain_idx then update_loaders fwd mom domain_idx rest T
      else case update_batches fwd mom loader T of
             Inl e \<Rightarrow> Inl e
           | Inr T' \<Rightarrow> update_loaders fwd mom domain_idx rest T')"

definition update_Z :: "('m, 'o, 'x) collab \<Rightarrow> int \<Rightarrow> ('m, 'x) adapter
    \<Rightarrow> error + ('m, 'x) adapter" where
  "update_Z C domain_idx st =
     (case update_loaders (forward_eval C (model st)) (momentum st) domain_idx
             (enumerate 0 (trainloader_list st)) (Z st, z st) of
        Inl e \<Rightarrow> Inl e
      | Inr T \<Rightarrow> Inr (st\<lparr>Z := fst T, z := snd T\<rparr>))"

section \<open>The confidence threshold\<close>

fun gather_batches :: "tensor2 \<Rightarrow> 'x batch list \<Rightarrow> error + tensor2 list" where
  "gather_batches T [] = Inr []"
| "gather_batches T (b # bs) =
     (case gather T (ids b) of
        Inl e \<Rightarrow> Inl e
      | Inr rows \<Rightarrow>
          (case gather_batches T bs of
             Inl e \<Rightarrow> Inl e
           | Inr rest \<Rightarrow> Inr (rows # rest)))"

text \<open>\<^verbatim>\<open>_calc_alpha\<close> (lines 123-132), on the table \<^verbatim>\<open>self.Z\<close>:
  \<^verbatim>\<open>torch.cat\<close> of an empty list raises.\<close>

definition calc_alpha :: "tensor2 \<Rightarrow> 'x loader \<Rightarrow> real \<Rightarrow> error + real" where
  "calc_alpha Zt loader confidence_q =
     (case gather_batches Zt loader of
        Inl e \<Rightarrow> Inl e
      | Inr total_prob \<Rightarrow>
          if total_prob = [] then Inl RuntimeError
          else (case confidence (concat total_prob) of
                  Inl e \<Rightarrow> Inl e
                | Inr conf \<Rightarrow> quantile conf confidence_q))"

section \<open>The momentum scheduler\<close>

text \<open>Line 137: \<^verbatim>\<open>np.exp(-self.beta * norm_dist)\<close>.\<close>

definition momentum_value :: "real \<Rightarrow> real \<Rightarrow> real" where
  "momentum_value b norm_dist = exp (- b * norm_dist)"

text \<open>\<^verbatim>\<open>_calc_momentum\<close> (lines 134-140): reads
  \<^verbatim>\<open>norm_dist_list[domain_idx-1]\<close>, stores the momentum and appends it to the
  record list.\<close>

definition calc_momentum :: "int \<Rightarrow> ('m, 'x) adapter \<Rightarrow> error + ('m, 'x) adapter" where
  "calc_momentum domain_idx st =
     (case py_index (norm_dist_list st) (domain_idx - 1) of
        Inl e \<Rightarrow> Inl e
      | Inr norm_dist \<Rightarrow>
          (let mom = momentum_value (beta st) norm_dist
           in Inr (st\<lparr>momentum := mom,
                      momentum_record_list := momentum_record_list st @ [mom]\<rparr>)))"

section \<open>Training and evaluation epochs\<close>

text \<open>The loop of \<^verbatim>\<open>_adapt_train_epoch\<close> (lines 30-40). The accumulator holds the
  model and the optimizer (both updated in place by the code), \<^verbatim>\<open>total_loss\<close>,
  \<^verbatim>\<open>total_num\<close> and \<^verbatim>\<open>total_logits\<close>; \<open>zt\<close> is the table
  \<^verbatim>\<open>self.z\<close>.\<close>

fun train_batches :: "('m, 'o, 'x) collab \<Rightarrow> tensor2 \<Rightarrow> real \<Rightarrow> 'x batch list
    \<Rightarrow> 'm \<times> 'o \<times> pyfloat \<times> nat \<times> tensor2 list
    \<Rightarrow> error + 'm \<times> 'o \<times> pyfloat \<times> nat \<times> tensor2 list" where
  "train_batches C zt alpha [] acc = Inr acc"
| "train_batches C zt alpha (b # bs) (m, opt, total_loss, total_num, total_logits) =
     (let student_logits = map (forward_train C m) (inputs b) in
      case gather zt (ids b) of
        Inl e \<Rightarrow> Inl e
      | Inr ensemble_probs \<Rightarrow>
     (case pseudo_label_loss student_logits ensemble_probs alpha of
        Inl e \<Rightarrow> Inl e
      | Inr (loss, msk) \<Rightarrow>
          (let stepped = optimizer_step C m opt (inputs b) ensemble_probs alpha;
               n = length (filter id msk)
           in train_batches C zt alpha bs
                (fst stepped, snd stepped, pf_add total_loss (pf_mul_nat loss n),
                 total_num + n, total_logits @ [student_logits]))))"

text \<open>\<^verbatim>\<open>_adapt_train_epoch\<close> (lines 25-44): returns the trained model and
  optimizer with \<^verbatim>\<open>(total_loss, score)\<close>.\<close>

definition adapt_train_epoch :: "('m, 'o, 'x) collab \<Rightarrow> tensor2 \<Rightarrow> 'm \<Rightarrow> 'o \<Rightarrow> 'x loader
    \<Rightarrow> real \<Rightarrow> error + 'm \<times> 'o \<times> pyfloat \<times> pyfloat" where
  "adapt_train_epoch C zt m opt train_loader alpha =
     (case train_batches C zt alpha train_loader (m, opt, Fin 0, 0, []) of
        Inl e \<Rightarrow> Inl e
      | Inr (m', opt', total_loss, total_num, total_logits) \<Rightarrow>
     (case pf_div_nat total_loss total_num of
        Inl e \<Rightarrow> Inl e
      | Inr loss \<Rightarrow>
          if total_logits = [] then Inl RuntimeError
          else Inr (m', opt', loss, validator C (concat total_logits))))"

text \<open>The loop of \<^verbatim>\<open>_oracle_eval_epoch\<close> (lines 70-79) on
  \<^verbatim>\<open>(total_correct, total_pl_correct, total_num)\<close>.\<close>

definition count_eq :: "nat list \<Rightarrow> nat list \<Rightarrow> nat" where
  "count_eq pred y = length (filter (\<lambda>(p, t). p = t) (zip pred y))"

fun oracle_batches :: "('m, 'o, 'x) collab \<Rightarrow> tensor2 \<Rightarrow> 'm \<Rightarrow> 'x batch list
    \<Rightarrow> nat \<times> nat \<times> nat \<Rightarrow> error + nat \<times> nat \<times> nat" where
  "oracle_batches C zt m [] acc = Inr acc"
| "oracle_batches C zt m (b # bs) (total_correct, total_pl_correct, total_num) =
     (let output = map (forward_eval C m) (inputs b) in
      if [] \<in> set output then Inl IndexError
      else
        (case gather zt (ids b) of
           Inl e \<Rightarrow> Inl e
         | Inr zrows \<Rightarrow>
             if [] \<in> set zrows then Inl IndexError
             else oracle_batches C zt m bs
                    (total_correct + count_eq (map argmax output) (labels b),
                     total_pl_correct + count_eq (map argmax zrows) (labels b),
                     total_num + length b)))"

text \<open>\<^verbatim>\<open>_oracle_eval_epoch\<close> (lines 64-81): the two accuracies, int over int.\<close>

definition oracle_eval_epoch :: "('m, 'o, 'x) collab \<Rightarrow> tensor2 \<Rightarrow> 'm \<Rightarrow> 'x loader
    \<Rightarrow> error + real \<times> real" where
  "oracle_eval_epoch C zt m val_loader =
     (case oracle_batches C zt m val_loader (0, 0, 0) of
        Inl e \<Rightarrow> Inl e
      | Inr (total_correct, total_pl_correct, total_num) \<Rightarrow>
          if total_num = 0 then Inl ZeroDivisionError
          else Inr (real total_correct / real total_num,
                    real total_pl_correct / real total_num))"

section \<open>One candidate: \<^verbatim>\<open>_adapt_train_eval\<close>\<close>

text \<open>The epoch loop of lines 92-98, \<open>n\<close> epochs to go. The last component holds the
  loop's variables \<^verbatim>\<open>train_score\<close> and \<^verbatim>\<open>pl_acc\<close>, unbound (\<open>None\<close>) until
  the first epoch has run. Logging is not modelled.\<close>

fun train_epochs :: "('m, 'o, 'x) collab \<Rightarrow> tensor2 \<Rightarrow> 'x loader \<Rightarrow> real \<Rightarrow> nat
    \<Rightarrow> 'm \<times> 'o \<times> (pyfloat \<times> real) option
    \<Rightarrow> error + 'm \<times> 'o \<times> (pyfloat \<times> real) option" where
  "train_epochs C zt train_loader alpha 0 acc = Inr acc"
| "train_epochs C zt train_loader alpha (Suc n) (m, opt, vars) =
     (case adapt_train_epoch C zt m opt train_loader alpha of
        Inl e \<Rightarrow> Inl e
      | Inr (m', opt', train_loss, train_score) \<Rightarrow>
     (case oracle_eval_epoch C zt m' train_loader of
        Inl e \<Rightarrow> Inl e
      | Inr (train_acc, pl_acc) \<Rightarrow>
          train_epochs C zt train_loader alpha n (m', opt', Some (train_score, pl_acc))))"

text \<open>\<^verbatim>\<open>_adapt_train_eval\<close> (lines 83-101); \<open>adapt_epochs\<close> is
  \<^verbatim>\<open>args.adapt_epochs\<close>. The candidate is trained on a deep copy of
  \<^verbatim>\<open>self.model\<close>, which the training does not touch. Returns the adapter state with
  \<^verbatim>\<open>(model, train_score)\<close>.\<close>

definition adapt_train_eval :: "('m, 'o, 'x) collab \<Rightarrow> int \<Rightarrow> real \<Rightarrow> int \<Rightarrow> ('m, 'x) adapter
    \<Rightarrow> error + ('m, 'x) adapter \<times> 'm \<times> pyfloat" where
  "adapt_train_eval C domain_idx confidence_q adapt_epochs st =
     (case update_Z C domain_idx st of
        Inl e \<Rightarrow> Inl e
      | Inr st1 \<Rightarrow>
     (case py_index (trainloader_list st1) domain_idx of
        Inl e \<Rightarrow> Inl e
      | Inr train_loader \<Rightarrow>
     (case calc_alpha (Z st1) train_loader confidence_q of
        Inl e \<Rightarrow> Inl e
      | Inr alpha \<Rightarrow>
     (case train_epochs C (z st1) train_loader alpha (nat adapt_epochs)
             (model st1, new_optimizer C (model st1), None) of
        Inl e \<Rightarrow> Inl e
      | Inr (m, opt, vars) \<Rightarrow>
     (case vars of
        None \<Rightarrow> Inl UnboundLocalError
      | Some (train_score, pl_acc) \<Rightarrow>
     (case calc_momentum domain_idx (st1\<lparr>pl_acc_list := pl_acc_list st1 @ [pl_acc]\<rparr>) of
        Inl e \<Rightarrow> Inl e
      | Inr st2 \<Rightarrow> Inr (st2, m, train_score)))))))"

section \<open>The per-domain sweep: \<^verbatim>\<open>adapt\<close>\<close>

text \<open>\<^verbatim>\<open>performance_dict[confidence_q] = ...\<close> on a Python dict, kept as the list of
  its items in insertion order: an existing key keeps its place and takes the new value.\<close>

fun dict_set :: "('k \<times> 'v) list \<Rightarrow> 'k \<Rightarrow> 'v \<Rightarrow> ('k \<times> 'v) list" where
  "dict_set [] k v = [(k, v)]"
| "dict_set ((k', v') # rest) k v =
     (if k' = k then (k, v) # rest else (k', v') # dict_set rest k v)"

text \<open>The first loop of \<^verbatim>\<open>adapt\<close> (lines 154-158) on the adapter state and
  \<^verbatim>\<open>performance_dict\<close>.\<close>

fun sweep :: "('m, 'o, 'x) collab \<Rightarrow> int \<Rightarrow> int \<Rightarrow> real list
    \<Rightarrow> ('m, 'x) adapter \<times> (real \<times> 'm \<times> pyfloat) list
    \<Rightarrow> error + ('m, 'x) adapter \<times> (real \<times> 'm \<times> pyfloat) list" where
  "sweep C domain_idx adapt_epochs [] acc = Inr acc"
| "sweep C domain_idx adapt_epochs (confidence_q # qs) (st, performance_dict) =
     (case adapt_train_eval C domain_idx confidence_q adapt_epochs st of
        Inl e \<Rightarrow> Inl e
      | Inr (st', m, val_score) \<Rightarrow>
          sweep C domain_idx adapt_epochs qs
            (st', dict_set performance_dict confidence_q (m, val_score)))"

text \<open>The second loop (lines 160-165) on \<^verbatim>\<open>(best_score, best_model)\<close>.\<close>

fun select_best :: "(real \<times> 'm \<times> pyfloat) list \<Rightarrow> pyfloat \<times> 'm option
    \<Rightarrow> pyfloat \<times> 'm option" where
  "select_best [] acc = acc"
| "select_best ((confidence_q, m, score) # rest) (best_score, best_model) =
     (if pf_gt score best_score then select_best rest (score, Some m)
      else select_best rest (best_score, best_model))"

text \<open>\<^verbatim>\<open>adapt\<close> (lines 151-167). \<^verbatim>\<open>deepcopy(None).to(device)\<close> raises
  AttributeError when no candidate was selected.\<close>

definition adapt :: "('m, 'o, 'x) collab \<Rightarrow> int \<Rightarrow> real list \<Rightarrow> int \<Rightarrow> ('m, 'x) adapter
    \<Rightarrow> error + ('m, 'x) adapter" where
  "adapt C domain_idx confidence_q_list adapt_epochs st =
     (case sweep C domain_idx adapt_epochs confidence_q_list (st, []) of
        Inl e \<Rightarrow> Inl e
      | Inr (st', performance_dict) \<Rightarrow>
     (case snd (select_best performance_dict (NegInf, None)) of
        None \<Rightarrow> Inl AttributeError
      | Some best_model \<Rightarrow> Inr (st'\<lparr>model := best_model\<rparr>)))"

section \<open>Quantities the specification speaks of\<close>

text \<open>The loss as the specification words it (section 4.4): the mean, over the masked-in
  samples only, of the negative log-likelihood of the teacher label; the denominator is
  the number of masked-in samples. It is used only where a sample is masked in.\<close>

definition spec_masked_mean_loss :: "tensor2 \<Rightarrow> tensor2 \<Rightarrow> real \<Rightarrow> real" where
  "spec_masked_mean_loss student_logits ensemble_probs alpha =
     (let kept = filter (\<lambda>(l, p). alpha \<le> amax p - amin p)
                   (zip student_logits ensemble_probs)
      in (\<Sum>(l, p)\<leftarrow>kept. - (log_softmax l ! argmax p)) / real (length kept))"

text \<open>The number of samples of a batch that the mask of \<^verbatim>\<open>_pseudo_label_loss\<close>
  keeps, read off the table \<^verbatim>\<open>self.z\<close>.\<close>

definition kept_count :: "tensor2 \<Rightarrow> real \<Rightarrow> 'x batch \<Rightarrow> nat" where
  "kept_count zt alpha b =
     length (filter (\<lambda>i. alpha \<le> amax (zt ! i) - amin (zt ! i)) (ids b))"

text \<open>The batches that one call of \<^verbatim>\<open>_update_Z\<close> iterates over, in order (the
  batches of the loaders at positions from \<^verbatim>\<open>domain_idx\<close> on), and the sample ids
  it writes.\<close>

definition batches_from :: "int \<Rightarrow> (nat \<times> 'x loader) list \<Rightarrow> 'x batch list" where
  "batches_from domain_idx es =
     concat (map (\<lambda>(d, loader). if int d < domain_idx then [] else loader) es)"

definition visited_batches :: "int \<Rightarrow> 'x loader list \<Rightarrow> 'x batch list" where
  "visited_batches domain_idx loaders = batches_from domain_idx (enumerate 0 loaders)"

definition touched_ids :: "int \<Rightarrow> 'x loader list \<Rightarrow> nat set" where
  "touched_ids domain_idx loaders =
     (\<Union>b\<in>set (visited_batches domain_idx loaders). set (ids b))"

text \<open>
  What the ensemble state goes through in \<open>n\<close> successive candidate runs, training left
  out: each run opens with \<^verbatim>\<open>_update_Z\<close> (line 85) and closes with
  \<^verbatim>\<open>_calc_momentum\<close> (line 100).
\<close>

fun ensemble_passes :: "('m, 'o, 'x) collab \<Rightarrow> int \<Rightarrow> nat \<Rightarrow> ('m, 'x) adapter
    \<Rightarrow> error + ('m, 'x) adapter" where
  "ensemble_passes C domain_idx 0 st = Inr st"
| "ensemble_passes C domain_idx (Suc n) st =
     (case update_Z C domain_idx st of
        Inl e \<Rightarrow> Inl e
      | Inr s1 \<Rightarrow>
     (case calc_momentum domain_idx s1 of
        Inl e \<Rightarrow> Inl e
      | Inr s2 \<Rightarrow> ensemble_passes C domain_idx n s2))"

text \<open>Two adapter states that differ at most in the two diagnostic lists.\<close>

definition same_ensemble :: "('m, 'x) adapter \<Rightarrow> ('m, 'x) adapter \<Rightarrow> bool" where
  "same_ensemble s t =
     (model s = model t \<and> Z s = Z t \<and> z s = z t \<and> beta s = beta t
      \<and> trainloader_list s = trainloader_list t \<and> norm_dist_list s = norm_dist_list t
      \<and> momentum s = momentum t)"

section \<open>Runs of the adapter\<close>

text \<open>A row of zeros, as the tables hold it for a sample that no update has visited.\<close>

definition zero_row :: "row \<Rightarrow> bool" where
  "zero_row r = (\<forall>x\<in>set r. x = 0)"

text \<open>The invariant the specification states for the tables (section 3, and the comment
  at line 118): every sample id whose row of \<open>Z\<close> is not all-zero has a row of \<open>z\<close> that is
  the L1 normalization of its row of \<open>Z\<close> and sums to 1.\<close>

definition rows_sum_to_one :: "tensor2 \<Rightarrow> tensor2 \<Rightarrow> bool" where
  "rows_sum_to_one Zt zt =
     list_all (\<lambda>i. zero_row (Zt ! i)
                 \<or> (i < length zt \<and> normalize_l1 (Zt ! i) = Inr (zt ! i) \<and> sum_list (zt ! i) = 1))
       [0..<length Zt]"

text \<open>
  The states of a run in domain order. The adapter is constructed on tables of zeros, the
  same table for \<^verbatim>\<open>Z\<close> and \<^verbatim>\<open>z\<close> (as the driver allocates them with
  \<^verbatim>\<open>torch.zeros\<close>), a non-negative \<^verbatim>\<open>beta\<close> and non-negative domain
  distances; \<^verbatim>\<open>adapt\<close> is then called with domain indices that never decrease.
  \<open>in_order_run C w st\<close>: \<open>st\<close> is a state of such a run, at the return of a candidate's
  \<^verbatim>\<open>_adapt_train_eval\<close> or of \<^verbatim>\<open>adapt\<close>, and \<open>w\<close> is the domain index of the
  last call (before the first call, any lower bound of the indices to come).
\<close>

inductive in_order_run :: "('m, 'o, 'x) collab \<Rightarrow> int \<Rightarrow> ('m, 'x) adapter \<Rightarrow> bool"
  for C :: "('m, 'o, 'x) collab" where
  start: "list_all zero_row Z0 \<Longrightarrow> 0 \<le> b \<Longrightarrow> list_all (\<lambda>x. 0 \<le> x) dists \<Longrightarrow>
      in_order_run C w (init mdl Z0 Z0 b loaders dists)"
| candidate: "in_order_run C w st \<Longrightarrow> w \<le> d \<Longrightarrow>
      adapt_train_eval C d confidence_q adapt_epochs st = Inr (st', m, score) \<Longrightarrow>
      in_order_run C d st'"
| domain: "in_order_run C w st \<Longrightarrow> w \<le> d \<Longrightarrow>
      adapt C d confidence_q_list adapt_epochs st = Inr st' \<Longrightarrow>
      in_order_run C d st'"

text \<open>
  Rows that the update can leave: non-negative entries that sum to at least 1 (a softmax
  row of width 1 broadcast over a wider row of \<open>Z\<close> sums to the width), and, for a
  classifier without single-logit outputs, probability vectors. \<open>ema_closed P C\<close>: a
  write of line 116 with a momentum in \<open>[0, 1]\<close> leaves a row in \<open>P\<close> when the row it
  overwrites is in \<open>P\<close> or the momentum is 0.
\<close>

definition ensemble_row :: "row \<Rightarrow> bool" where
  "ensemble_row r = (list_all (\<lambda>x. 0 \<le> x) r \<and> (r = [] \<or> 1 \<le> sum_list r))"

definition prob_row :: "row \<Rightarrow> bool" where
  "prob_row r = (list_all (\<lambda>x. 0 \<le> x) r \<and> (r = [] \<or> sum_list r = 1))"

definition ema_closed :: "(row \<Rightarrow> bool) \<Rightarrow> ('m, 'o, 'x) collab \<Rightarrow> bool" where
  "ema_closed P C =
     (\<forall>mom a m x r. 0 \<le> mom \<and> mom \<le> 1 \<and> (mom = 0 \<or> P a)
        \<and> ema_row mom a (softmax (forward_eval C m x)) = Inr r \<longrightarrow> P r)"

text \<open>
  The invariant of the tables during one update with momentum \<open>mom\<close>: \<open>z\<close> is the row by
  row normalization of \<open>Z\<close>, every row of \<open>Z\<close> is all-zero or in \<open>P\<close>, the rows of the ids
  in \<open>S\<close> (those the update may write) are in \<open>P\<close> unless the momentum is 0, and the rows
  of the ids in \<open>W\<close> (those it has written) are in \<open>P\<close>. The invariant of the adapter
  state between two calls follows.
\<close>

definition table_inv :: "(row \<Rightarrow> bool) \<Rightarrow> real \<Rightarrow> nat set \<Rightarrow> nat set \<Rightarrow> tensor2 \<times> tensor2 \<Rightarrow> bool" where
  "table_inv P mom S W T =
     (length (snd T) = length (fst T)
      \<and> (\<forall>i<length (fst T). normalize_l1 (fst T ! i) = Inr (snd T ! i)
            \<and> (zero_row (fst T ! i) \<or> P (fst T ! i)))
      \<and> (\<forall>i\<in>S. i < length (fst T) \<longrightarrow> mom = 0 \<or> P (fst T ! i))
      \<and> (\<forall>i\<in>W. i < length (fst T) \<longrightarrow> P (fst T ! i)))"

definition ensemble_inv :: "(row \<Rightarrow> bool) \<Rightarrow> int \<Rightarrow> ('m, 'x) adapter \<Rightarrow> bool" where
  "ensemble_inv P w st =
     (0 \<le> momentum st \<and> momentum st \<le> 1 \<and> 0 \<le> beta st
      \<and> (\<forall>x\<in>set (norm_dist_list st). 0 \<le> x)
      \<and> table_inv P (momentum st) (touched_ids w (trainloader_list st)) {} (Z st, z st))"

section \<open>A concrete instance\<close>

text \<open>
  Collaborators for running the adapter on concrete inputs: two classes, a model that is
  one real number \<open>m\<close> and gives every input the logits \<open>[m, 0]\<close>, an optimizer step
  that moves the model to \<open>ln 3\<close>, and a validator that scores every model 0.
\<close>

definition toy :: "(real, unit, unit) collab" where
  "toy = \<lparr>forward_eval = (\<lambda>m x. [m, 0]),
          forward_train = (\<lambda>m x. [m, 0]),
          new_optimizer = (\<lambda>m. ()),
          optimizer_step = (\<lambda>m opt xs probs alpha. (ln 3, ())),
          validator = (\<lambda>logits. Fin 0)\<rparr>"

text \<open>
  An adapter as the driver builds it: tables of zeros for two samples, \<open>beta = 1\<close>, an
  empty loader for the source domain 0, sample 0 in domain 1, sample 1 in domain 2, and
  both domain distances \<open>ln 2\<close>.
\<close>

definition toy_init :: "(real, unit) adapter" where
  "toy_init = init 0 [[0, 0], [0, 0]] [[0, 0], [0, 0]] 1
     [[], [[(0, (), 0)]], [[(1, (), 0)]]] [ln 2, ln 2]"

text \<open>The states the instance goes through: after \<^verbatim>\<open>adapt\<close> on domain 1 with one
  candidate, and after the first and the second candidate of a sweep on domain 2.\<close>

definition toy_after_domain1 :: "(real, unit) adapter" where
  "toy_after_domain1 =
     toy_init\<lparr>model := ln 3, Z := [[1 / 2, 1 / 2], [1 / 2, 1 / 2]],
       z := [[1 / 2, 1 / 2], [1 / 2, 1 / 2]], momentum := 1 / 2, pl_acc_list := [1],
       momentum_record_list := [1 / 2]\<rparr>"

definition toy_after_candidate1 :: "(real, unit) adapter" where
  "toy_after_candidate1 =
     toy_after_domain1\<lparr>Z := [[1 / 2, 1 / 2], [5 / 8, 3 / 8]],
       z := [[1 / 2, 1 / 2], [5 / 8, 3 / 8]], pl_acc_list := [1, 1],
       momentum_record_list := [1 / 2, 1 / 2]\<rparr>"

definition toy_after_candidate2 :: "(real, unit) adapter" where
  "toy_after_candidate2 =
     toy_after_domain1\<lparr>Z := [[1 / 2, 1 / 2], [11 / 16, 5 / 16]],
       z := [[1 / 2, 1 / 2], [11 / 16, 5 / 16]], pl_acc_list := [1, 1, 1],
       momentum_record_list := [1 / 2, 1 / 2, 1 / 2]\<rparr>"

text \<open>The same collaborators with a validator that scores every model \<open>-inf\<close>, and with
  an optimizer step and a validator that make the score depend on the candidate: the step
  moves the model to \<open>8/5 * alpha + 3/10\<close>, the score is the first logit.\<close>

definition toy_worst :: "(real, unit, unit) collab" where
  "toy_worst = toy\<lparr>validator := (\<lambda>logits. NegInf)\<rparr>"

definition toy_scored :: "(real, unit, unit) collab" where
  "toy_scored =
     toy\<lparr>optimizer_step := (\<lambda>m opt xs probs alpha. (8 / 5 * alpha + 3 / 10, ())),
         validator := (\<lambda>logits. case logits of (x # _) # _ \<Rightarrow> Fin x | _ \<Rightarrow> NaN)\<rparr>"

text \<open>The same adapter with both domain distances 0, and its state after one candidate on
  domain 2: the momentum is 1 and sample 0, of domain 1, has not been visited.\<close>

definition toy_still :: "(real, unit) adapter" where
  "toy_still = init 0 [[0, 0], [0, 0]] [[0, 0], [0, 0]] 1
     [[], [[(0, (), 0)]], [[(1, (), 0)]]] [0, 0]"

definition toy_still_after_domain2 :: "(real, unit) adapter" where
  "toy_still_after_domain2 =
     toy_still\<lparr>Z := [[0, 0], [1 / 2, 1 / 2]], z := [[0, 0], [1 / 2, 1 / 2]],
       momentum := 1, pl_acc_list := [1], momentum_record_list := [1]\<rparr>"

section \<open>Evaluation on concrete inputs\<close>

lemmas tensor_defs = gather_def scatter_def fit_row_def ema_row_def normalize_l1_def div_row_def l1_norm_def
  normalize_eps_def softmax_def log_softmax_def amax_def amin_def argmax_def confidence_def
  nll_loss_def mean_def ids_def inputs_def labels_def quantile_def py_index_def count_eq_def

lemmas toy_defs = toy_def toy_init_def init_def toy_after_domain1_def toy_after_candidate1_def
  toy_after_candidate2_def toy_worst_def toy_scored_def

lemmas still_defs = toy_still_def toy_still_after_domain2_def

lemmas run_defs = adapt_train_eval_def update_Z_def update_batch_def calc_alpha_def
  adapt_train_epoch_def pseudo_label_loss_def oracle_eval_epoch_def calc_momentum_def
  momentum_value_def enumerate_eq_zip exp_minus Let_def

section \<open>Results: the momentum scheduler\<close>

lemma calc_momentum_result:
  "py_index (norm_dist_list st) (d - 1) = Inr nd \<Longrightarrow>
   calc_momentum d st =
     Inr (st\<lparr>momentum := exp (- beta st * nd),
             momentum_record_list := momentum_record_list st @ [exp (- beta st * nd)]\<rparr>)"
  by (simp add: calc_momentum_def momentum_value_def Let_def)

text \<open>
  C8, as stated: for every non-negative beta and distance the momentum is strictly
  decreasing in the distance and in beta. With \<open>beta = 0\<close> the momentum is 1 at the
  distances 0 and 1 alike, so it is not strictly decreasing in the distance there.
\<close>

theorem momentum_strict_counterexample:
  "momentum_value 0 0 = 1 \<and> momentum_value 0 1 = 1
   \<and> \<not> momentum_value 0 1 < momentum_value 0 0"
  by (simp add: momentum_value_def)

text \<open>
  C8, amended: the momentum \<open>exp (- beta * distance)\<close> is strictly decreasing in the
  distance for a fixed beta that is positive, strictly decreasing in beta for a fixed
  distance that is positive, non-increasing in either for non-negative values of the
  other, and 1 at distance 0.
\<close>

theorem momentum_monotone:
  "(0 < b \<and> d1 < d2 \<longrightarrow> momentum_value b d2 < momentum_value b d1)
   \<and> (0 < d \<and> b1 < b2 \<longrightarrow> momentum_value b2 d < momentum_value b1 d)
   \<and> (0 \<le> b \<and> d1 \<le> d2 \<longrightarrow> momentum_value b d2 \<le> momentum_value b d1)
   \<and> (0 \<le> d \<and> b1 \<le> b2 \<longrightarrow> momentum_value b2 d \<le> momentum_value b1 d)
   \<and> momentum_value b 0 = 1"
  by (simp add: momentum_value_def mult_left_mono mult_right_mono)

theorem momentum_monotone_witness:
  "momentum_value 1 (ln 2) < momentum_value 1 0
   \<and> momentum_value 2 (ln 2) < momentum_value 1 (ln 2)
   \<and> momentum_value 0 1 \<le> momentum_value 0 0
   \<and> momentum_value 1 0 \<le> momentum_value 0 0
   \<and> momentum_value 1 0 = 1"
proof -
  have pos: "(0::real) < ln 2"
    by simp
  show ?thesis
    using momentum_monotone [of 1 0 "ln 2" "ln 2" 1 2]
      momentum_monotone [of 0 0 1 0 0 1] pos
    by simp
qed

text \<open>
  C9: \<^verbatim>\<open>_calc_momentum\<close> sets the momentum to \<open>exp (- beta * distance)\<close>, the
  distance being \<^verbatim>\<open>norm_dist_list[domain_idx - 1]\<close> (for \<open>domain_idx \<ge> 1\<close> the entry
  at position \<open>domain_idx - 1\<close>), and appends that value to the record list; with beta 1
  the momentum is 1 at distance 0 and 1/2 at distance \<open>ln 2\<close>.
\<close>

theorem calc_momentum_exp:
  assumes "py_index (norm_dist_list st) (d - 1) = Inr nd"
  shows "\<exists>st'. calc_momentum d st = Inr st'
           \<and> momentum st' = exp (- beta st * nd)
           \<and> momentum_record_list st' = momentum_record_list st @ [exp (- beta st * nd)]
           \<and> (1 \<le> d \<longrightarrow> nd = norm_dist_list st ! nat (d - 1))
           \<and> (beta st = 1 \<and> nd = 0 \<longrightarrow> momentum st' = 1)
           \<and> (beta st = 1 \<and> nd = ln 2 \<longrightarrow> momentum st' = 1 / 2)"
proof -
  have idx: "1 \<le> d \<longrightarrow> nd = norm_dist_list st ! nat (d - 1)"
    using assms by (auto simp: py_index_def Let_def split: if_splits)
  show ?thesis
    using calc_momentum_result [OF assms] idx by (simp add: exp_minus)
qed

theorem calc_momentum_exp_witness:
  "\<exists>st'. calc_momentum 2 (init (0::nat) [] [] 1 ([] :: unit loader list) [0, ln 2]) = Inr st'
        \<and> momentum st' = 1 / 2 \<and> momentum_record_list st' = [1 / 2]"
proof -
  have idx: "py_index (norm_dist_list (init (0::nat) [] [] 1 ([] :: unit loader list) [0, ln 2]))
               (2 - 1) = Inr (ln 2)"
    by (simp add: py_index_def init_def)
  show ?thesis
    using calc_momentum_exp [OF idx] by (force simp: init_def exp_minus)
qed

section \<open>Results: the pseudo-label loss\<close>

lemma masked_sum:
  "length (nll :: real list) = length ps \<Longrightarrow>
   sum_list (map2 (\<lambda>l m. l * (if m then 1 else 0)) nll (map P ps))
     = sum_list (map fst (filter (\<lambda>(l, p). P p) (zip nll ps)))"
  by (induction nll ps rule: list_induct2) auto

lemma confidence_Inr:
  "confidence t = Inr c \<Longrightarrow> c = map (\<lambda>r. amax r - amin r) t \<and> [] \<notin> set t"
  by (auto simp: confidence_def split: if_splits)

lemma nll_loss_Inr:
  "nll_loss logp target = Inr v \<Longrightarrow>
     length logp = length target \<and> v = map2 (\<lambda>r t. - (r ! t)) logp target"
  by (auto simp: nll_loss_def split: if_splits)

lemma nll_filter:
  "length sl = length ep \<Longrightarrow>
   map fst (filter (\<lambda>(l, p). P p)
     (zip (map2 (\<lambda>r t. - (r ! t)) (map log_softmax sl) (map argmax ep)) ep))
   = map (\<lambda>(l, p). - (log_softmax l ! argmax p)) (filter (\<lambda>(l, p). P p) (zip sl ep))"
  by (induction sl ep rule: list_induct2) auto

lemma gather_Inr:
  "gather T idx = Inr rows \<Longrightarrow> rows = map (\<lambda>i. T ! i) idx \<and> (\<forall>i\<in>set idx. i < length T)"
  by (auto simp: gather_def list_all_iff split: if_splits)

lemma pseudo_label_loss_mask:
  "pseudo_label_loss sl ep alpha = Inr (loss, msk) \<Longrightarrow>
     msk = map (\<lambda>p. alpha \<le> amax p - amin p) ep"
  by (auto simp: pseudo_label_loss_def Let_def split: sum.splits dest!: confidence_Inr)

lemma pseudo_label_loss_two_samples:
  "pseudo_label_loss [[0, 0], [0, 0]] [[1, 0], [1 / 2, 1 / 2]] (1 / 2)
     = Inr (Fin (ln 2 / 2), [True, False])"
  by (simp add: pseudo_label_loss_def confidence_def amax_def amin_def argmax_def nll_loss_def
      log_softmax_def mean_def Let_def)

lemma pseudo_label_loss_Inr_value:
  assumes "pseudo_label_loss sl ep alpha = Inr (loss, msk)" and "ep \<noteq> []"
  shows "msk = map (\<lambda>p. alpha \<le> amax p - amin p) ep
       \<and> loss = Fin ((\<Sum>(l, p)\<leftarrow>filter (\<lambda>(l, p). alpha \<le> amax p - amin p) (zip sl ep).
                        - (log_softmax l ! argmax p)) / real (length ep))"
proof -
  from assms(1) obtain c nll where c: "confidence ep = Inr c"
    and n: "nll_loss (map log_softmax sl) (map argmax ep) = Inr nll"
    and m: "msk = map (\<lambda>c. alpha \<le> c) c"
    and l: "loss = mean (map2 (\<lambda>l m. l * (if m then 1 else 0)) nll msk)"
    by (auto simp: pseudo_label_loss_def Let_def split: sum.splits)
  have c': "c = map (\<lambda>r. amax r - amin r) ep"
    using confidence_Inr [OF c] by simp
  have len: "length sl = length ep"
    and nll: "nll = map2 (\<lambda>r t. - (r ! t)) (map log_softmax sl) (map argmax ep)"
    using nll_loss_Inr [OF n] by simp_all
  have msk: "msk = map (\<lambda>p. alpha \<le> amax p - amin p) ep"
    using m c' by simp
  have lnll: "length nll = length ep"
    using nll len by simp
  have ne: "map2 (\<lambda>l m. l * (if m then 1 else 0)) nll msk \<noteq> []"
    using lnll assms(2) msk by (cases nll; cases ep) auto
  have "sum_list (map2 (\<lambda>l m. l * (if m then 1 else 0)) nll msk)
        = sum_list (map fst (filter (\<lambda>(l, p). alpha \<le> amax p - amin p) (zip nll ep)))"
    unfolding msk by (rule masked_sum [OF lnll])
  also have "\<dots> = (\<Sum>(l, p)\<leftarrow>filter (\<lambda>(l, p). alpha \<le> amax p - amin p) (zip sl ep).
                        - (log_softmax l ! argmax p))"
    unfolding nll using nll_filter [OF len] by simp
  finally have s: "sum_list (map2 (\<lambda>l m. l * (if m then 1 else 0)) nll msk)
      = (\<Sum>(l, p)\<leftarrow>filter (\<lambda>(l, p). alpha \<le> amax p - amin p) (zip sl ep).
            - (log_softmax l ! argmax p))" .
  have "length (map2 (\<lambda>l m. l * (if m then 1 else 0)) nll msk) = length ep"
    using lnll msk by simp
  with s ne l have "loss = Fin ((\<Sum>(l, p)\<leftarrow>filter (\<lambda>(l, p). alpha \<le> amax p - amin p)
                        (zip sl ep). - (log_softmax l ! argmax p)) / real (length ep))"
    by (simp add: mean_def)
  with msk show ?thesis
    by simp
qed

lemma pseudo_label_loss_returns:
  assumes "[] \<notin> set ep" and "length sl = length ep"
    and "\<forall>(l, p)\<in>set (zip sl ep). argmax p < length l"
  shows "\<exists>loss msk. pseudo_label_loss sl ep alpha = Inr (loss, msk)"
proof -
  have conf: "confidence ep = Inr (map (\<lambda>r. amax r - amin r) ep)"
    using assms(1) by (simp add: confidence_def)
  have "\<not> list_ex (\<lambda>(r, t). length r \<le> t) (zip (map log_softmax sl) (map argmax ep))"
    using assms(3) by (auto simp: list_ex_iff zip_map_map log_softmax_def)
  then have nll: "nll_loss (map log_softmax sl) (map argmax ep)
      = Inr (map (\<lambda>(r, t). - (r ! t)) (zip (map log_softmax sl) (map argmax ep)))"
    using assms(2) by (simp add: nll_loss_def)
  show ?thesis
    by (simp add: pseudo_label_loss_def conf nll Let_def)
qed

text \<open>
  C1, as stated: the denominator of the loss is the number of masked-in samples. On a batch
  of two samples with logits \<open>[0, 0]\<close>, ensemble rows \<open>[1, 0]\<close> and \<open>[1/2, 1/2]\<close> and
  \<open>alpha = 1/2\<close>, only the first sample is masked in and its negative log-likelihood is
  \<open>ln 2\<close>: the mean over the masked-in samples is \<open>ln 2\<close>, the code returns \<open>ln 2 / 2\<close>.
\<close>

theorem pseudo_label_loss_counterexample:
  "pseudo_label_loss [[0, 0], [0, 0]] [[1, 0], [1 / 2, 1 / 2]] (1 / 2)
     = Inr (Fin (ln 2 / 2), [True, False])
   \<and> spec_masked_mean_loss [[0, 0], [0, 0]] [[1, 0], [1 / 2, 1 / 2]] (1 / 2) = ln 2
   \<and> ln 2 / 2 \<noteq> (ln 2 :: real)"
proof -
  have "spec_masked_mean_loss [[0, 0], [0, 0]] [[1, 0], [1 / 2, 1 / 2]] (1 / 2) = ln 2"
    by (simp add: spec_masked_mean_loss_def amax_def amin_def argmax_def log_softmax_def
        Let_def)
  then show ?thesis
    using pseudo_label_loss_two_samples by simp
qed

text \<open>
  C1, amended: on every non-empty batch of matching shapes (no ensemble row of width 0, as
  many logits rows as ensemble rows, every teacher label inside the logits row)
  \<^verbatim>\<open>_pseudo_label_loss\<close> returns; the mask marks the samples whose confidence
  \<open>max - min\<close> of the ensemble row is at least alpha, and the loss is the sum, over the
  masked-in samples, of the negative log-likelihood of the teacher label under
  \<open>log_softmax\<close> of the student logits, divided by the batch size: masked-out samples add
  zero to the numerator and are counted in the denominator.
\<close>

theorem pseudo_label_loss_value:
  assumes "ep \<noteq> []" and "[] \<notin> set ep" and "length sl = length ep"
    and "\<forall>(l, p)\<in>set (zip sl ep). argmax p < length l"
  shows "pseudo_label_loss sl ep alpha
     = Inr (Fin ((\<Sum>(l, p)\<leftarrow>filter (\<lambda>(l, p). alpha \<le> amax p - amin p) (zip sl ep).
                    - (log_softmax l ! argmax p)) / real (length ep)),
            map (\<lambda>p. alpha \<le> amax p - amin p) ep)"
proof -
  from pseudo_label_loss_returns [OF assms(2,3,4)] obtain loss msk where
    r: "pseudo_label_loss sl ep alpha = Inr (loss, msk)"
    by blast
  show ?thesis
    using pseudo_label_loss_Inr_value [OF r assms(1)] r by simp
qed

theorem pseudo_label_loss_value_witness:
  "pseudo_label_loss [[0, 0], [0, 0]] [[1, 0], [1 / 2, 1 / 2]] (1 / 2)
     = Inr (Fin ((\<Sum>(l, p)\<leftarrow>filter (\<lambda>(l, p). 1 / 2 \<le> amax p - amin p)
                    (zip [[0, 0], [0, 0]] [[1, 0], [1 / 2, 1 / 2]]).
                    - (log_softmax l ! argmax p)) / real (length [[1, 0], [1 / 2, 1 / 2 :: real]])),
            map (\<lambda>p. 1 / 2 \<le> amax p - amin p) [[1, 0], [1 / 2, 1 / 2]])
   \<and> (\<Sum>(l, p)\<leftarrow>filter (\<lambda>(l, p). 1 / 2 \<le> amax p - amin p)
                    (zip [[0, 0], [0, 0]] [[1, 0], [1 / 2, 1 / 2]]).
                    - (log_softmax l ! argmax p)) / real (length [[1, 0], [1 / 2, 1 / 2 :: real]])
       = ln 2 / 2
   \<and> map (\<lambda>p. (1 / 2 :: real) \<le> amax p - amin p) [[1, 0], [1 / 2, 1 / 2]] = [True, False]"
proof -
  have ne: "[[1, 0], [1 / 2, 1 / 2 :: real]] \<noteq> []"
    and rows: "[] \<notin> set [[1, 0], [1 / 2, 1 / 2 :: real]]"
    and len: "length [[0, 0], [0, 0 :: real]] = length [[1, 0], [1 / 2, 1 / 2 :: real]]"
    and tgt: "\<forall>(l, p)\<in>set (zip [[0, 0], [0, 0 :: real]] [[1, 0], [1 / 2, 1 / 2 :: real]]).
                argmax p < length l"
    by (simp_all add: argmax_def amax_def)
  have v: "(\<Sum>(l, p)\<leftarrow>filter (\<lambda>(l, p). 1 / 2 \<le> amax p - amin p)
                    (zip [[0, 0], [0, 0]] [[1, 0], [1 / 2, 1 / 2]]).
                    - (log_softmax l ! argmax p)) / real (length [[1, 0], [1 / 2, 1 / 2 :: real]])
       = ln 2 / 2"
    by (simp add: amax_def amin_def argmax_def log_softmax_def)
  have m: "map (\<lambda>p. (1 / 2 :: real) \<le> amax p - amin p) [[1, 0], [1 / 2, 1 / 2]] = [True, False]"
    by (simp add: amax_def amin_def)
  show ?thesis
    using pseudo_label_loss_value [OF ne rows len tgt, of "1 / 2"] v m by blast
qed

section \<open>Results: the empty mask\<close>

lemma filter_id_map: "length (filter id (map P xs)) = length (filter P xs)"
  by (induction xs) auto

lemma train_batches_counts:
  "train_batches C zt alpha bs (m, opt, tot, num, lgs) = Inr (m', opt', tot', num', lgs') \<Longrightarrow>
     num' = num + (\<Sum>b\<leftarrow>bs. kept_count zt alpha b) \<and> length lgs' = length lgs + length bs"
proof (induction bs arbitrary: m opt tot num lgs)
  case Nil
  then show ?case
    by simp
next
  case (Cons b bs)
  from Cons.prems obtain ep loss msk where g: "gather zt (ids b) = Inr ep"
    and p: "pseudo_label_loss (map (forward_train C m) (inputs b)) ep alpha = Inr (loss, msk)"
    and r: "train_batches C zt alpha bs
              (fst (optimizer_step C m opt (inputs b) ep alpha),
               snd (optimizer_step C m opt (inputs b) ep alpha),
               pf_add tot (pf_mul_nat loss (length (filter id msk))),
               num + length (filter id msk),
               lgs @ [map (forward_train C m) (inputs b)]) = Inr (m', opt', tot', num', lgs')"
    by (auto simp: Let_def split: sum.splits)
  have "length (filter id msk) = kept_count zt alpha b"
    using pseudo_label_loss_mask [OF p] gather_Inr [OF g]
    by (simp add: kept_count_def filter_id_map filter_map o_def)
  with Cons.IH [OF r] show ?case
    by simp
qed

lemma pf_div_nat_pos: "0 < n \<Longrightarrow> \<exists>v. pf_div_nat a n = Inr v"
  by (cases a; cases n) auto

lemma masked_out_filter:
  assumes "\<forall>p\<in>set ep. amax p - amin p < alpha"
  shows "filter (\<lambda>(l, p). alpha \<le> amax p - amin p) (zip sl ep) = []"
proof -
  have "\<not> alpha \<le> amax p - amin p" if "(l, p) \<in> set (zip sl ep)" for l p
    using that assms set_zip_rightD [OF that] by fastforce
  then show ?thesis
    by (auto simp: filter_empty_conv)
qed

lemma masked_out_mask:
  "\<forall>p\<in>set ep. amax p - amin p < alpha \<Longrightarrow>
     map (\<lambda>p. alpha \<le> amax p - amin p) ep = replicate (length ep) False"
  by (induction ep) auto

lemma all_masked_out_loss:
  assumes "ep \<noteq> []" and "[] \<notin> set ep" and "length sl = length ep"
    and "\<forall>(l, p)\<in>set (zip sl ep). argmax p < length l"
    and "\<forall>p\<in>set ep. amax p - amin p < alpha"
  shows "pseudo_label_loss sl ep alpha = Inr (Fin 0, replicate (length ep) False)"
proof -
  from pseudo_label_loss_returns [OF assms(2,3,4)] obtain loss msk where
    r: "pseudo_label_loss sl ep alpha = Inr (loss, msk)"
    by blast
  show ?thesis
    using pseudo_label_loss_Inr_value [OF r assms(1)] r
    by (simp add: masked_out_filter [OF assms(5)] masked_out_mask [OF assms(5)])
qed

text \<open>
  C2, as stated: a batch whose samples are all masked out makes the loss computation raise.
  On the one-sample batch with ensemble row \<open>[1/2, 1/2]\<close> (confidence 0) and \<open>alpha = 1\<close>
  the function returns the loss 0 and the mask \<open>[False]\<close>; nothing is raised.
\<close>

theorem empty_mask_counterexample:
  "pseudo_label_loss [[0, 0]] [[1 / 2, 1 / 2]] 1 = Inr (Fin 0, [False])"
  by (simp add: pseudo_label_loss_def confidence_def amax_def amin_def argmax_def nll_loss_def
      log_softmax_def mean_def Let_def)

text \<open>
  C2, amended: when every sample of a non-empty, well-shaped batch is masked out,
  \<^verbatim>\<open>_pseudo_label_loss\<close> raises nothing and returns the finite loss 0 (not NaN) with
  the all-False mask. An error surfaces only at the end of a training epoch: when the
  batch loop of \<^verbatim>\<open>_adapt_train_epoch\<close> has completed, \<^verbatim>\<open>total_loss /= total_num\<close>
  raises ZeroDivisionError exactly when no sample of any batch of the epoch was masked in.
\<close>

theorem empty_mask_behaviour:
  "(ep \<noteq> [] \<and> [] \<notin> set ep \<and> length sl = length ep
      \<and> (\<forall>(l, p)\<in>set (zip sl ep). argmax p < length l)
      \<and> (\<forall>p\<in>set ep. amax p - amin p < alpha)
      \<longrightarrow> pseudo_label_loss sl ep alpha = Inr (Fin 0, replicate (length ep) False))
   \<and> (train_batches C zt alpha loader (m, opt, Fin 0, 0, []) = Inr acc
      \<longrightarrow> (adapt_train_epoch C zt m opt loader alpha = Inl ZeroDivisionError)
            = ((\<Sum>b\<leftarrow>loader. kept_count zt alpha b) = 0))"
proof (intro conjI impI)
  assume a: "ep \<noteq> [] \<and> [] \<notin> set ep \<and> length sl = length ep
      \<and> (\<forall>(l, p)\<in>set (zip sl ep). argmax p < length l)
      \<and> (\<forall>p\<in>set ep. amax p - amin p < alpha)"
  then show "pseudo_label_loss sl ep alpha = Inr (Fin 0, replicate (length ep) False)"
    by (intro all_masked_out_loss) simp_all
next
  assume t: "train_batches C zt alpha loader (m, opt, Fin 0, 0, []) = Inr acc"
  obtain m' opt' tot' num' lgs' where acc: "acc = (m', opt', tot', num', lgs')"
    by (cases acc) auto
  have cnt: "num' = (\<Sum>b\<leftarrow>loader. kept_count zt alpha b)"
    and len: "length lgs' = length loader"
    using train_batches_counts [OF t [unfolded acc]] by simp_all
  show "(adapt_train_epoch C zt m opt loader alpha = Inl ZeroDivisionError)
            = ((\<Sum>b\<leftarrow>loader. kept_count zt alpha b) = 0)"
  proof (cases "num' = 0")
    case True
    have "adapt_train_epoch C zt m opt loader alpha = Inl ZeroDivisionError"
      by (simp add: adapt_train_epoch_def t acc True)
    then show ?thesis
      using cnt True by simp
  next
    case False
    then obtain v where v: "pf_div_nat tot' num' = Inr v"
      using pf_div_nat_pos [of num' tot'] by auto
    have "loader \<noteq> []"
      using False cnt by auto
    then have "lgs' \<noteq> []"
      using len by auto
    then have "adapt_train_epoch C zt m opt loader alpha
        = Inr (m', opt', v, validator C (concat lgs'))"
      by (simp add: adapt_train_epoch_def t acc v)
    then show ?thesis
      using False cnt by simp
  qed
qed

lemma toy_train_batches:
  "train_batches toy [[1 / 2, 1 / 2]] 1 [[(0, (), 0)]] (0, (), Fin 0, 0, [])
     = Inr (ln 3, (), Fin 0, 0, [[[0, 0]]])"
  by (simp add: toy_def gather_def ids_def inputs_def pseudo_label_loss_def confidence_def
      amax_def amin_def argmax_def nll_loss_def log_softmax_def mean_def Let_def)

theorem empty_mask_behaviour_witness:
  "pseudo_label_loss [[0, 0]] [[1 / 2, 1 / 2]] 1 = Inr (Fin 0, [False])
   \<and> train_batches toy [[1 / 2, 1 / 2]] 1 [[(0, (), 0)]] (0, (), Fin 0, 0, [])
       = Inr (ln 3, (), Fin 0, 0, [[[0, 0]]])
   \<and> adapt_train_epoch toy [[1 / 2, 1 / 2]] 0 () [[(0, (), 0)]] 1 = Inl ZeroDivisionError"
proof -
  have shape: "[[1 / 2, 1 / 2 :: real]] \<noteq> [] \<and> [] \<notin> set [[1 / 2, 1 / 2 :: real]]
      \<and> length [[0, 0 :: real]] = length [[1 / 2, 1 / 2 :: real]]
      \<and> (\<forall>(l, p)\<in>set (zip [[0, 0 :: real]] [[1 / 2, 1 / 2 :: real]]). argmax p < length l)
      \<and> (\<forall>p\<in>set [[1 / 2, 1 / 2 :: real]]. amax p - amin p < 1)"
    by (simp add: argmax_def amax_def amin_def)
  have none: "(\<Sum>b\<leftarrow>[[(0, (), 0)]]. kept_count [[1 / 2, 1 / 2]] 1 (b :: unit batch)) = 0"
    by (simp add: kept_count_def ids_def amax_def amin_def)
  show ?thesis
    using empty_mask_behaviour [where ep = "[[1 / 2, 1 / 2]]" and sl = "[[0, 0]]"
        and alpha = 1 and C = toy and zt = "[[1 / 2, 1 / 2]]" and loader = "[[(0, (), 0)]]"
        and m = 0 and opt = "()" and acc = "(ln 3, (), Fin 0, 0, [[[0, 0]]])"]
      shape toy_train_batches none
    by simp
qed

section \<open>Results: the sweep over the candidates\<close>

lemma same_ensemble_refl: "same_ensemble s s"
  by (simp add: same_ensemble_def)

lemma same_ensemble_trans: "same_ensemble s t \<Longrightarrow> same_ensemble t u \<Longrightarrow> same_ensemble s u"
  by (simp add: same_ensemble_def)

lemma update_Z_same:
  assumes "same_ensemble s t" and "update_Z C d s = Inr s'"
  shows "\<exists>t'. update_Z C d t = Inr t' \<and> same_ensemble s' t'"
  using assms by (auto simp: update_Z_def same_ensemble_def split: sum.splits)

lemma update_Z_frame:
  "update_Z C d s = Inr s' \<Longrightarrow>
     model s' = model s \<and> beta s' = beta s \<and> trainloader_list s' = trainloader_list s
     \<and> norm_dist_list s' = norm_dist_list s \<and> momentum s' = momentum s
     \<and> pl_acc_list s' = pl_acc_list s \<and> momentum_record_list s' = momentum_record_list s"
  by (auto simp: update_Z_def split: sum.splits)

lemma calc_momentum_same:
  assumes "same_ensemble s t" and "calc_momentum d s = Inr s'"
  shows "\<exists>t'. calc_momentum d t = Inr t' \<and> same_ensemble s' t'"
  using assms by (auto simp: calc_momentum_def same_ensemble_def Let_def split: sum.splits)

lemma calc_momentum_frame:
  "calc_momentum d s = Inr s' \<Longrightarrow>
     model s' = model s \<and> Z s' = Z s \<and> z s' = z s \<and> beta s' = beta s
     \<and> trainloader_list s' = trainloader_list s \<and> norm_dist_list s' = norm_dist_list s
     \<and> pl_acc_list s' = pl_acc_list s
     \<and> length (momentum_record_list s') = Suc (length (momentum_record_list s))"
  by (auto simp: calc_momentum_def Let_def split: sum.splits)

lemma ensemble_passes_same:
  "same_ensemble s t \<Longrightarrow> ensemble_passes C d n s = Inr s' \<Longrightarrow>
     \<exists>t'. ensemble_passes C d n t = Inr t' \<and> same_ensemble s' t'"
proof (induction n arbitrary: s t)
  case 0
  then show ?case by simp
next
  case (Suc n)
  from Suc.prems(2) obtain s1 s2 where u: "update_Z C d s = Inr s1"
    and c: "calc_momentum d s1 = Inr s2" and r: "ensemble_passes C d n s2 = Inr s'"
    by (auto split: sum.splits)
  from update_Z_same [OF Suc.prems(1) u] obtain t1 where
    u': "update_Z C d t = Inr t1" and e1: "same_ensemble s1 t1" by blast
  from calc_momentum_same [OF e1 c] obtain t2 where
    c': "calc_momentum d t1 = Inr t2" and e2: "same_ensemble s2 t2" by blast
  from Suc.IH [OF e2 r] obtain t' where "ensemble_passes C d n t2 = Inr t'" "same_ensemble s' t'"
    by blast
  then show ?case using u' c' by simp
qed

lemma ensemble_passes_model:
  "ensemble_passes C d n s = Inr s' \<Longrightarrow> model s' = model s"
proof (induction n arbitrary: s)
  case 0
  then show ?case by simp
next
  case (Suc n)
  from Suc.prems obtain s1 s2 where u: "update_Z C d s = Inr s1"
    and c: "calc_momentum d s1 = Inr s2" and r: "ensemble_passes C d n s2 = Inr s'"
    by (auto split: sum.splits)
  show ?case using Suc.IH [OF r] update_Z_frame [OF u] calc_momentum_frame [OF c] by simp
qed

lemma adapt_train_eval_passes:
  assumes "adapt_train_eval C d q ep s = Inr (s', m, sc)"
  shows "\<exists>s1 s2. update_Z C d s = Inr s1 \<and> calc_momentum d s1 = Inr s2 \<and> same_ensemble s' s2
      \<and> length (pl_acc_list s') = Suc (length (pl_acc_list s))
      \<and> length (momentum_record_list s') = Suc (length (momentum_record_list s))"
proof -
  from assms obtain s1 pl where u: "update_Z C d s = Inr s1"
    and c: "calc_momentum d (s1\<lparr>pl_acc_list := pl_acc_list s1 @ [pl]\<rparr>) = Inr s'"
    by (auto simp: adapt_train_eval_def split: sum.splits option.splits)
  have e: "same_ensemble (s1\<lparr>pl_acc_list := pl_acc_list s1 @ [pl]\<rparr>) s1"
    by (simp add: same_ensemble_def)
  from calc_momentum_same [OF e c] obtain s2 where c2: "calc_momentum d s1 = Inr s2"
    and e2: "same_ensemble s' s2" by blast
  show ?thesis
    using u c2 e2 calc_momentum_frame [OF c] update_Z_frame [OF u] by auto
qed

lemma sweep_passes:
  "sweep C d ep qs (st, p0) = Inr (st', perf) \<Longrightarrow>
     \<exists>s. ensemble_passes C d (length qs) st = Inr s \<and> same_ensemble st' s
       \<and> length (pl_acc_list st') = length (pl_acc_list st) + length qs
       \<and> length (momentum_record_list st') = length (momentum_record_list st) + length qs"
proof (induction qs arbitrary: st p0)
  case Nil
  then show ?case by (simp add: same_ensemble_refl)
next
  case (Cons q qs)
  from Cons.prems obtain st1 m sc where a: "adapt_train_eval C d q ep st = Inr (st1, m, sc)"
    and r: "sweep C d ep qs (st1, dict_set p0 q (m, sc)) = Inr (st', perf)"
    by (auto split: sum.splits)
  from adapt_train_eval_passes [OF a] obtain s1 s2 where u: "update_Z C d st = Inr s1"
    and c: "calc_momentum d s1 = Inr s2" and e: "same_ensemble st1 s2"
    and l1: "length (pl_acc_list st1) = Suc (length (pl_acc_list st))"
    and l2: "length (momentum_record_list st1) = Suc (length (momentum_record_list st))"
    by blast
  from Cons.IH [OF r] obtain sa where p: "ensemble_passes C d (length qs) st1 = Inr sa"
    and ea: "same_ensemble st' sa"
    and l3: "length (pl_acc_list st') = length (pl_acc_list st1) + length qs"
    and l4: "length (momentum_record_list st') = length (momentum_record_list st1) + length qs"
    by blast
  from ensemble_passes_same [OF e p] obtain sb where pb: "ensemble_passes C d (length qs) s2 = Inr sb"
    and eb: "same_ensemble sa sb" by blast
  have "ensemble_passes C d (length (q # qs)) st = Inr sb"
    using u c pb by simp
  moreover have "same_ensemble st' sb"
    using ea eb by (rule same_ensemble_trans)
  ultimately show ?case using l1 l2 l3 l4 by auto
qed

lemma sweep_append:
  "sweep C d ep (xs @ ys) acc =
     (case sweep C d ep xs acc of Inl e \<Rightarrow> Inl e | Inr acc' \<Rightarrow> sweep C d ep ys acc')"
proof (induction xs arbitrary: acc)
  case Nil
  then show ?case by simp
next
  case (Cons x xs)
  obtain st p where acc: "acc = (st, p)" by (cases acc) auto
  show ?case by (simp add: acc Cons.IH split: sum.splits)
qed

lemma sweep_prefix:
  assumes "sweep C d ep qs acc = Inr r"
  shows "\<exists>r1. sweep C d ep (take k qs) acc = Inr r1"
proof -
  have "sweep C d ep (take k qs @ drop k qs) acc = Inr r" using assms by simp
  then show ?thesis unfolding sweep_append by (auto split: sum.splits)
qed

lemma adapt_Inr:
  "adapt C d qs ep st = Inr st' \<Longrightarrow>
     \<exists>s perf m. sweep C d ep qs (st, []) = Inr (s, perf) \<and> st' = s\<lparr>model := m\<rparr>"
  by (auto simp: adapt_def split: sum.splits option.splits)

lemma sweep_next_candidate:
  assumes "sweep C d ep qs acc = Inr r" and "k < length qs"
    and "sweep C d ep (take k qs) acc = Inr (sk, pk)"
  shows "\<exists>r'. adapt_train_eval C d (qs ! k) ep sk = Inr r'"
proof -
  have "qs = take k qs @ qs ! k # drop (Suc k) qs"
    using assms(2) by (rule id_take_nth_drop)
  then have "sweep C d ep (take k qs @ qs ! k # drop (Suc k) qs) acc = Inr r"
    using assms(1) by simp
  then have "sweep C d ep (qs ! k # drop (Suc k) qs) (sk, pk) = Inr r"
    unfolding sweep_append by (simp add: assms(3))
  then show ?thesis
    by (auto split: sum.splits)
qed

lemma toy_candidate_domain1:
  "0 \<le> q \<Longrightarrow> q \<le> 1 \<Longrightarrow>
   adapt_train_eval toy 1 q 1 toy_init
     = Inr (toy_after_domain1\<lparr>model := 0\<rparr>, ln 3, Fin 0)"
  by (simp add: run_defs toy_defs tensor_defs)

lemma toy_adapt_domain1: "adapt toy 1 [1 / 10] 1 toy_init = Inr toy_after_domain1"
  by (simp add: adapt_def toy_candidate_domain1) (simp add: toy_defs)

lemma toy_update_domain2:
  "update_Z toy 2 toy_after_domain1
     = Inr (toy_after_domain1\<lparr>Z := [[1 / 2, 1 / 2], [5 / 8, 3 / 8]],
                               z := [[1 / 2, 1 / 2], [5 / 8, 3 / 8]]\<rparr>)"
  by (simp add: run_defs toy_defs tensor_defs)

lemma toy_candidate1:
  "0 \<le> q \<Longrightarrow> q \<le> 1 \<Longrightarrow>
   adapt_train_eval toy 2 q 1 toy_after_domain1 = Inr (toy_after_candidate1, ln 3, Fin 0)"
  by (simp add: run_defs toy_defs tensor_defs)

lemma toy_update_again:
  "update_Z toy 2 toy_after_candidate1
     = Inr (toy_after_candidate1\<lparr>Z := [[1 / 2, 1 / 2], [11 / 16, 5 / 16]],
                               z := [[1 / 2, 1 / 2], [11 / 16, 5 / 16]]\<rparr>)"
  by (simp add: run_defs toy_defs tensor_defs)

lemma toy_candidate2:
  "0 \<le> q \<Longrightarrow> q \<le> 1 \<Longrightarrow>
   adapt_train_eval toy 2 q 1 toy_after_candidate1 = Inr (toy_after_candidate2, ln 3, Fin 0)"
  by (simp add: run_defs toy_defs tensor_defs)

lemma toy_adapt_domain2:
  "adapt toy 2 [1 / 10, 1 / 5] 1 toy_after_domain1 = Inr toy_after_candidate2"
  by (simp add: adapt_def toy_candidate1 toy_candidate2) (simp add: toy_defs)

lemma toy_worst_candidate:
  "0 \<le> q \<Longrightarrow> q \<le> 1 \<Longrightarrow>
   adapt_train_eval toy_worst 1 q 1 toy_init
     = Inr (toy_after_domain1\<lparr>model := 0\<rparr>, ln 3, NegInf)"
  by (simp add: run_defs toy_defs tensor_defs)

lemma toy_worst_candidate_again:
  "0 \<le> q \<Longrightarrow> q \<le> 1 \<Longrightarrow>
   adapt_train_eval toy_worst 1 q 1 (toy_after_domain1\<lparr>model := 0\<rparr>)
     = Inr (toy_after_domain1\<lparr>model := 0, pl_acc_list := [1, 1],
              momentum_record_list := [1 / 2, 1 / 2]\<rparr>, ln 3, NegInf)"
  by (simp add: run_defs toy_defs tensor_defs)

lemma toy_worst_adapt:
  "adapt toy_worst 1 [1 / 10, 1 / 5] 1 toy_init = Inl AttributeError"
  by (simp add: adapt_def toy_worst_candidate toy_worst_candidate_again)

text \<open>
  C3, as stated: one call of \<^verbatim>\<open>adapt\<close> updates \<open>Z\<close> once, and every candidate sees the
  same ensemble state. In the instance, after \<^verbatim>\<open>adapt\<close> on domain 1, a sweep of two
  candidates on domain 2 updates the row of sample 1 twice: the first candidate trains
  against \<open>[5/8, 3/8]\<close>, the second against \<open>[11/16, 5/16]\<close>, which is also what
  \<^verbatim>\<open>adapt\<close> leaves in \<open>Z\<close>.
\<close>

theorem sweep_updates_counterexample:
  "adapt toy 1 [1 / 10] 1 toy_init = Inr toy_after_domain1
   \<and> adapt toy 2 [1 / 10, 1 / 5] 1 toy_after_domain1 = Inr toy_after_candidate2
   \<and> update_Z toy 2 toy_after_domain1
       = Inr (toy_after_domain1\<lparr>Z := [[1 / 2, 1 / 2], [5 / 8, 3 / 8]],
                                 z := [[1 / 2, 1 / 2], [5 / 8, 3 / 8]]\<rparr>)
   \<and> adapt_train_eval toy 2 (1 / 10) 1 toy_after_domain1
       = Inr (toy_after_candidate1, ln 3, Fin 0)
   \<and> update_Z toy 2 toy_after_candidate1
       = Inr (toy_after_candidate1\<lparr>Z := [[1 / 2, 1 / 2], [11 / 16, 5 / 16]],
                                    z := [[1 / 2, 1 / 2], [11 / 16, 5 / 16]]\<rparr>)
   \<and> Z toy_after_candidate2 = [[1 / 2, 1 / 2], [11 / 16, 5 / 16]]
   \<and> [[1 / 2, 1 / 2], [5 / 8, 3 / 8]] \<noteq> [[1 / 2, 1 / 2], [11 / 16, 5 / 16 :: real]]"
proof -
  have "adapt_train_eval toy 2 (1 / 10) 1 toy_after_domain1
      = Inr (toy_after_candidate1, ln 3, Fin 0)"
    by (rule toy_candidate1) simp_all
  moreover have "Z toy_after_candidate2 = [[1 / 2, 1 / 2], [11 / 16, 5 / 16]]"
    by (simp add: toy_defs)
  ultimately show ?thesis
    using toy_adapt_domain1 toy_adapt_domain2 toy_update_domain2 toy_update_again by simp
qed

text \<open>
  C3, amended: during one call of \<^verbatim>\<open>adapt\<close> the ensemble update runs once per
  candidate, each time followed by the momentum scheduler: when the call returns, the
  state in which candidate \<open>k + 1\<close> starts has the tables \<open>Z\<close>, \<open>z\<close> and the momentum of \<open>k\<close>
  successive update-and-momentum passes over the state at entry, the final tables are
  those of as many passes as there are candidates (one pass exactly when the sweep has one
  candidate), and \<^verbatim>\<open>self.model\<close> is the pre-domain model throughout, so every
  candidate is trained from a deep copy of the same model.
\<close>

theorem adapt_updates_per_candidate:
  assumes "adapt C d qs ep st = Inr st'" and "k \<le> length qs"
  shows "\<exists>sk pk s. sweep C d ep (take k qs) (st, []) = Inr (sk, pk)
           \<and> ensemble_passes C d k st = Inr s
           \<and> model sk = model st \<and> Z sk = Z s \<and> z sk = z s \<and> momentum sk = momentum s
           \<and> (k < length qs \<longrightarrow> (\<exists>r. adapt_train_eval C d (qs ! k) ep sk = Inr r))
           \<and> (k = length qs \<longrightarrow> Z st' = Z sk \<and> z st' = z sk)"
proof -
  from adapt_Inr [OF assms(1)] obtain sf perf m where
    sw: "sweep C d ep qs (st, []) = Inr (sf, perf)" and st': "st' = sf\<lparr>model := m\<rparr>"
    by blast
  from sweep_prefix [OF sw, of k] obtain sk pk where
    swk: "sweep C d ep (take k qs) (st, []) = Inr (sk, pk)"
    by (metis surj_pair)
  from sweep_passes [OF swk] obtain s where
    p: "ensemble_passes C d (length (take k qs)) st = Inr s" and e: "same_ensemble sk s"
    by blast
  have pk: "ensemble_passes C d k st = Inr s"
    using p assms(2) by simp
  have m: "model sk = model st"
    using e ensemble_passes_model [OF pk] by (simp add: same_ensemble_def)
  have nxt: "k < length qs \<longrightarrow> (\<exists>r. adapt_train_eval C d (qs ! k) ep sk = Inr r)"
    using sweep_next_candidate [OF sw _ swk] by blast
  have fin: "k = length qs \<longrightarrow> Z st' = Z sk \<and> z st' = z sk"
    using sw swk st' by auto
  have tabs: "Z sk = Z s \<and> z sk = z s \<and> momentum sk = momentum s"
    using e by (simp add: same_ensemble_def)
  show ?thesis
    using swk pk m tabs nxt fin by blast
qed

theorem adapt_updates_per_candidate_witness:
  "adapt toy 2 [1 / 10, 1 / 5] 1 toy_after_domain1 = Inr toy_after_candidate2
   \<and> (\<exists>sk pk s. sweep toy 2 1 (take 1 [1 / 10, 1 / 5]) (toy_after_domain1, []) = Inr (sk, pk)
           \<and> ensemble_passes toy 2 1 toy_after_domain1 = Inr s
           \<and> model sk = model toy_after_domain1 \<and> Z sk = Z s \<and> z sk = z s
           \<and> momentum sk = momentum s
           \<and> (1 < length [1 / 10, 1 / 5 :: real]
                \<longrightarrow> (\<exists>r. adapt_train_eval toy 2 ([1 / 10, 1 / 5] ! 1) 1 sk = Inr r))
           \<and> (1 = length [1 / 10, 1 / 5 :: real]
                \<longrightarrow> Z toy_after_candidate2 = Z sk \<and> z toy_after_candidate2 = z sk))"
proof -
  have le: "1 \<le> length [1 / 10, 1 / 5 :: real]"
    by simp
  show ?thesis
    using adapt_updates_per_candidate [OF toy_adapt_domain2 le] toy_adapt_domain2 by blast
qed

text \<open>
  C4, as stated: the two history lists grow by one entry per domain processed, however
  many candidates the sweep has. In the instance one call of \<^verbatim>\<open>adapt\<close> on domain 2
  with two candidates appends two entries to each list.
\<close>

theorem history_counterexample:
  "adapt toy 2 [1 / 10, 1 / 5] 1 toy_after_domain1 = Inr toy_after_candidate2
   \<and> momentum_record_list toy_after_domain1 = [1 / 2]
   \<and> momentum_record_list toy_after_candidate2 = [1 / 2, 1 / 2, 1 / 2]
   \<and> pl_acc_list toy_after_domain1 = [1]
   \<and> pl_acc_list toy_after_candidate2 = [1, 1, 1]"
  using toy_adapt_domain2 by (simp add: toy_defs)

text \<open>
  C4, amended: the momentum scheduler runs once per candidate, at the end of that
  candidate's \<^verbatim>\<open>_adapt_train_eval\<close>, after its training; when \<^verbatim>\<open>adapt\<close> returns,
  \<^verbatim>\<open>momentum_record_list\<close> and \<^verbatim>\<open>pl_acc_list\<close> have each grown by one entry per
  candidate of the sweep (one entry per domain exactly when the sweep has one candidate).
\<close>

theorem adapt_history_lengths:
  assumes "adapt C d qs ep st = Inr st'"
  shows "length (momentum_record_list st') = length (momentum_record_list st) + length qs
       \<and> length (pl_acc_list st') = length (pl_acc_list st) + length qs"
proof -
  from adapt_Inr [OF assms(1)] obtain sf perf m where
    sw: "sweep C d ep qs (st, []) = Inr (sf, perf)" and st': "st' = sf\<lparr>model := m\<rparr>"
    by blast
  show ?thesis
    using sweep_passes [OF sw] st' by auto
qed

theorem adapt_history_lengths_witness:
  "adapt toy 2 [1 / 10, 1 / 5] 1 toy_after_domain1 = Inr toy_after_candidate2
   \<and> length (momentum_record_list toy_after_candidate2)
       = length (momentum_record_list toy_after_domain1) + length [1 / 10, 1 / 5 :: real]
   \<and> length (pl_acc_list toy_after_candidate2)
       = length (pl_acc_list toy_after_domain1) + length [1 / 10, 1 / 5 :: real]"
  using adapt_history_lengths [OF toy_adapt_domain2] toy_adapt_domain2 by blast

section \<open>Results: the selection\<close>

lemma pf_gt_trichotomy:
  "pf_gt a b \<Longrightarrow> pf_gt s c \<Longrightarrow> \<not> pf_gt a s \<Longrightarrow> a \<noteq> s \<Longrightarrow> pf_gt s a"
  by (cases a; cases s; cases b; cases c) auto

lemma select_best_keeps:
  "\<forall>e\<in>set rest. \<not> pf_gt (snd (snd e)) s \<Longrightarrow> select_best rest (s, bm) = (s, bm)"
  by (induction rest) auto

lemma select_best_first_max:
  "i < length perf \<Longrightarrow> perf ! i = (q, m, s) \<Longrightarrow> pf_gt s b0 \<Longrightarrow>
   \<forall>j<length perf. \<not> pf_gt (snd (snd (perf ! j))) s \<Longrightarrow>
   \<forall>j<i. snd (snd (perf ! j)) \<noteq> s \<Longrightarrow>
   select_best perf (b0, bm) = (s, Some m)"
proof (induction perf arbitrary: i b0 bm)
  case Nil
  then show ?case by simp
next
  case (Cons e perf)
  obtain q' m' s' where e: "e = (q', m', s')" by (cases e) auto
  show ?case
  proof (cases i)
    case 0
    then have h: "q' = q" "m' = m" "s' = s" using Cons.prems(2) e by simp_all
    have "\<forall>x\<in>set perf. \<not> pf_gt (snd (snd x)) s"
    proof
      fix x assume "x \<in> set perf"
      then obtain j where "j < length perf" "perf ! j = x" by (auto simp: in_set_conv_nth)
      then show "\<not> pf_gt (snd (snd x)) s"
        using Cons.prems(4) [rule_format, of "Suc j"] by simp
    qed
    then show ?thesis
      using Cons.prems(3) by (simp add: e h select_best_keeps)
  next
    case (Suc i')
    have i': "i' < length perf" and at: "perf ! i' = (q, m, s)"
      using Cons.prems(1,2) Suc by simp_all
    have mx: "\<forall>j<length perf. \<not> pf_gt (snd (snd (perf ! j))) s"
      using Cons.prems(4) by (metis Suc_less_eq length_Cons nth_Cons_Suc)
    have ne: "\<forall>j<i'. snd (snd (perf ! j)) \<noteq> s"
      using Cons.prems(5) Suc by (metis Suc_less_eq nth_Cons_Suc)
    have hd1: "\<not> pf_gt s' s"
      using Cons.prems(4) [rule_format, of 0] e by simp
    have hd2: "s' \<noteq> s"
      using Cons.prems(5) [rule_format, of 0] Suc e by simp
    show ?thesis
    proof (cases "pf_gt s' b0")
      case True
      have "pf_gt s s'"
        using pf_gt_trichotomy [OF True Cons.prems(3) hd1 hd2] .
      from Cons.IH [OF i' at this mx ne] show ?thesis
        using True by (simp add: e)
    next
      case False
      from Cons.IH [OF i' at Cons.prems(3) mx ne] show ?thesis
        using False by (simp add: e)
    qed
  qed
qed

lemma dict_set_fresh: "k \<notin> set (map fst p) \<Longrightarrow> dict_set p k v = p @ [(k, v)]"
  by (induction p) auto

lemma sweep_keys:
  "sweep C d ep qs (st, p0) = Inr (st', perf) \<Longrightarrow> distinct (map fst p0 @ qs) \<Longrightarrow>
     map fst perf = map fst p0 @ qs"
proof (induction qs arbitrary: st p0)
  case Nil
  then show ?case by simp
next
  case (Cons q qs)
  from Cons.prems(1) obtain st1 m sc where
    r: "sweep C d ep qs (st1, dict_set p0 q (m, sc)) = Inr (st', perf)"
    by (auto split: sum.splits)
  have fresh: "dict_set p0 q (m, sc) = p0 @ [(q, (m, sc))]"
    using Cons.prems(2) by (intro dict_set_fresh) auto
  have "distinct (map fst (dict_set p0 q (m, sc)) @ qs)"
    using Cons.prems(2) by (simp add: fresh)
  from Cons.IH [OF r this] show ?case by (simp add: fresh)
qed

lemma scored_candidate1:
  "adapt_train_eval toy_scored 2 (1 / 10) 2 toy_after_domain1
     = Inr (toy_after_candidate1, 7 / 10, Fin (7 / 10))"
  by (simp add: run_defs toy_defs tensor_defs eval_nat_numeral)

lemma scored_candidate2:
  "adapt_train_eval toy_scored 2 (1 / 5) 2 toy_after_candidate1
     = Inr (toy_after_candidate2, 9 / 10, Fin (9 / 10))"
  by (simp add: run_defs toy_defs tensor_defs eval_nat_numeral)

lemma scored_sweep:
  "sweep toy_scored 2 2 [1 / 10, 1 / 5] (toy_after_domain1, [])
     = Inr (toy_after_candidate2, [(1 / 10, 7 / 10, Fin (7 / 10)), (1 / 5, 9 / 10, Fin (9 / 10))])"
  by (simp add: scored_candidate1 scored_candidate2)

text \<open>
  C7, as stated: the driver picks a candidate even when every candidate has the trivial
  worst score. With a validator that scores every model \<open>-inf\<close>, no score is strictly
  greater than the initial \<^verbatim>\<open>best_score = -np.inf\<close>, \<^verbatim>\<open>best_model\<close> stays
  \<^verbatim>\<open>None\<close>, and \<^verbatim>\<open>adapt\<close> raises AttributeError at line 167.
\<close>

theorem selection_counterexample:
  "sweep toy_worst 1 1 [1 / 10, 1 / 5] (toy_init, [])
     = Inr (toy_after_domain1\<lparr>model := 0, pl_acc_list := [1, 1],
              momentum_record_list := [1 / 2, 1 / 2]\<rparr>,
            [(1 / 10, ln 3, NegInf), (1 / 5, ln 3, NegInf)])
   \<and> adapt toy_worst 1 [1 / 10, 1 / 5] 1 toy_init = Inl AttributeError"
  using toy_worst_adapt by (simp add: toy_worst_candidate toy_worst_candidate_again)

text \<open>
  C7, amended: \<^verbatim>\<open>performance_dict\<close> holds one entry per distinct
  \<^verbatim>\<open>confidence_q\<close>, in sweep order (for pairwise distinct values, one per candidate).
  If some entry's score is strictly greater than \<open>-inf\<close>, the live model after the sweep
  is the model of the first entry, in iteration order, whose score no other entry's score
  exceeds; with scores \<open>[0.7, 0.9]\<close> it is the second candidate's model. (When no score is
  greater than \<open>-inf\<close>, no candidate is picked.)
\<close>

theorem adapt_selects_first_best:
  "(sweep C d ep qs (st, []) = Inr (st', perf) \<and> i < length perf \<and> perf ! i = (q, m, s)
      \<and> pf_gt s NegInf
      \<and> (\<forall>j<length perf. \<not> pf_gt (snd (snd (perf ! j))) s)
      \<and> (\<forall>j<i. snd (snd (perf ! j)) \<noteq> s)
     \<longrightarrow> adapt C d qs ep st = Inr (st'\<lparr>model := m\<rparr>) \<and> (distinct qs \<longrightarrow> map fst perf = qs))
   \<and> (sweep C d ep qs (st, []) = Inr (st', [(q1, m1, Fin (7 / 10)), (q2, m2, Fin (9 / 10))])
     \<longrightarrow> adapt C d qs ep st = Inr (st'\<lparr>model := m2\<rparr>))"
proof (intro conjI impI)
  assume a: "sweep C d ep qs (st, []) = Inr (st', perf) \<and> i < length perf \<and> perf ! i = (q, m, s)
      \<and> pf_gt s NegInf
      \<and> (\<forall>j<length perf. \<not> pf_gt (snd (snd (perf ! j))) s)
      \<and> (\<forall>j<i. snd (snd (perf ! j)) \<noteq> s)"
  then have "select_best perf (NegInf, None) = (s, Some m)"
    by (intro select_best_first_max [of i]) auto
  then show "adapt C d qs ep st = Inr (st'\<lparr>model := m\<rparr>)"
    using a by (simp add: adapt_def)
  show "map fst perf = qs" if "distinct qs"
    using sweep_keys [of C d ep qs st "[]" st' perf] a that by simp
next
  assume "sweep C d ep qs (st, []) = Inr (st', [(q1, m1, Fin (7 / 10)), (q2, m2, Fin (9 / 10))])"
  then show "adapt C d qs ep st = Inr (st'\<lparr>model := m2\<rparr>)"
    by (simp add: adapt_def)
qed

theorem adapt_selects_first_best_witness:
  "sweep toy_scored 2 2 [1 / 10, 1 / 5] (toy_after_domain1, [])
     = Inr (toy_after_candidate2,
            [(1 / 10, 7 / 10, Fin (7 / 10)), (1 / 5, 9 / 10, Fin (9 / 10))])
   \<and> adapt toy_scored 2 [1 / 10, 1 / 5] 2 toy_after_domain1
       = Inr (toy_after_candidate2\<lparr>model := 9 / 10\<rparr>)
   \<and> map fst [(1 / 10, 7 / 10, Fin (7 / 10)), (1 / 5 :: real, 9 / 10 :: real, Fin (9 / 10))]
       = [1 / 10, 1 / 5]"
proof -
  note T = adapt_selects_first_best [where C = toy_scored and d = 2 and ep = 2
      and qs = "[1 / 10, 1 / 5]" and st = toy_after_domain1 and st' = toy_after_candidate2
      and perf = "[(1 / 10, 7 / 10, Fin (7 / 10)), (1 / 5, 9 / 10, Fin (9 / 10))]"
      and i = 1 and q = "1 / 5" and m = "9 / 10" and s = "Fin (9 / 10)"
      and ?q1.0 = "1 / 10" and ?m1.0 = "7 / 10" and ?q2.0 = "1 / 5" and ?m2.0 = "9 / 10"]
  have i: "(1::nat) < length [(1 / 10, 7 / 10, Fin (7 / 10)), (1 / 5 :: real, 9 / 10 :: real, Fin (9 / 10))]"
    by simp
  have at: "[(1 / 10, 7 / 10, Fin (7 / 10)), (1 / 5 :: real, 9 / 10 :: real, Fin (9 / 10))] ! 1
      = (1 / 5, 9 / 10, Fin (9 / 10))"
    by simp
  have gt: "pf_gt (Fin (9 / 10)) NegInf"
    by simp
  have mx: "\<forall>j<length [(1 / 10, 7 / 10, Fin (7 / 10)), (1 / 5 :: real, 9 / 10 :: real, Fin (9 / 10))].
      \<not> pf_gt (snd (snd ([(1 / 10, 7 / 10, Fin (7 / 10)), (1 / 5, 9 / 10, Fin (9 / 10))] ! j)))
          (Fin (9 / 10))"
    by (simp add: less_Suc_eq)
  have fst: "\<forall>j<1. snd (snd ([(1 / 10 :: real, 7 / 10 :: real, Fin (7 / 10)),
                               (1 / 5, 9 / 10, Fin (9 / 10))] ! j)) \<noteq> Fin (9 / 10)"
    by simp
  have ds: "distinct [1 / 10, 1 / 5 :: real]"
    by simp
  show ?thesis
    using T scored_sweep i at gt mx fst ds by blast
qed

section \<open>Results: the ensemble update\<close>

subsection \<open>Writes by index\<close>

lemma foldl_update_length:
  "length (foldl (\<lambda>T' (i, r). T'[i := r]) T ps) = length T"
  by (induction ps arbitrary: T) auto

lemma foldl_update_other:
  "j \<notin> set (map fst ps) \<Longrightarrow> foldl (\<lambda>T' (i, r). T'[i := r]) T ps ! j = T ! j"
  by (induction ps arbitrary: T) (auto simp: nth_list_update)

lemma foldl_scatter_last:
  "length rows = length idx \<Longrightarrow> i \<in> set idx \<Longrightarrow> \<forall>k\<in>set idx. k < length T \<Longrightarrow>
     \<exists>j<length idx. idx ! j = i \<and> foldl (\<lambda>T' (k, r). T'[k := r]) T (zip idx rows) ! i = rows ! j"
proof (induction idx arbitrary: rows rule: rev_induct)
  case Nil
  then show ?case by simp
next
  case (snoc k idx)
  from snoc.prems(1) obtain rs r where rows: "rows = rs @ [r]" and len: "length rs = length idx"
    by (cases rows rule: rev_cases) auto
  have fold: "foldl (\<lambda>T' (k, r). T'[k := r]) T (zip (idx @ [k]) rows)
      = (foldl (\<lambda>T' (k, r). T'[k := r]) T (zip idx rs))[k := r]"
    using len by (simp add: rows)
  have kl: "k < length (foldl (\<lambda>T' (k, r). T'[k := r]) T (zip idx rs))"
    using snoc.prems(3) by (simp add: foldl_update_length)
  show ?case
  proof (cases "i = k")
    case True
    have "(idx @ [k]) ! length idx = i"
      using True by simp
    moreover have "foldl (\<lambda>T' (k, r). T'[k := r]) T (zip (idx @ [k]) rows) ! i
        = rows ! length idx"
      using kl True len by (simp add: fold rows nth_append)
    ultimately show ?thesis
      by (intro exI [of _ "length idx"]) simp
  next
    case False
    then have "i \<in> set idx"
      using snoc.prems(2) by simp
    from snoc.IH [OF len this] snoc.prems(3) obtain j where j: "j < length idx" "idx ! j = i"
      "foldl (\<lambda>T' (k, r). T'[k := r]) T (zip idx rs) ! i = rs ! j"
      by auto
    have "foldl (\<lambda>T' (k, r). T'[k := r]) T (zip (idx @ [k]) rows) ! i = rows ! j"
      using j False len by (simp add: fold rows nth_append)
    moreover have "(idx @ [k]) ! j = i"
      using j by (simp add: nth_append)
    ultimately show ?thesis
      using j(1) by (intro exI [of _ j]) simp
  qed
qed

lemma foldl_update_map:
  "length rows = length idx \<Longrightarrow>
     foldl (\<lambda>T' (i, r). T'[i := g i r]) T (zip idx rows)
       = foldl (\<lambda>T' (i, r). T'[i := r]) T (zip idx (map2 g idx rows))"
proof (induction rows arbitrary: idx T)
  case Nil
  then show ?case by simp
next
  case (Cons r rows)
  then obtain i idx' where idx: "idx = i # idx'" and len: "length rows = length idx'"
    by (cases idx) auto
  show ?case
    using Cons.IH [OF len] by (simp add: idx)
qed

lemma scatter_Inr:
  assumes "scatter T idx rows = Inr T'" and "length rows = length idx"
  shows "length T' = length T" and "j \<notin> set idx \<Longrightarrow> T' ! j = T ! j"
    and "\<forall>i\<in>set idx. i < length T"
proof -
  from assms(1) have "T' = foldl (\<lambda>T' (i, r). T'[i := fit_row (length (T ! i)) r]) T (zip idx rows)"
    and rng: "list_all (\<lambda>i. i < length T) idx"
    by (auto simp: scatter_def split: if_splits)
  then have eq: "T' = foldl (\<lambda>T' (i, r). T'[i := r]) T
      (zip idx (map2 (\<lambda>i. fit_row (length (T ! i))) idx rows))"
    using foldl_update_map [OF assms(2)] by simp
  show "length T' = length T"
    by (simp add: eq foldl_update_length)
  show "\<forall>i\<in>set idx. i < length T"
    using rng by (simp add: list_all_iff)
  show "T' ! j = T ! j" if "j \<notin> set idx"
  proof -
    have "j \<notin> set (map fst (zip idx (map2 (\<lambda>i. fit_row (length (T ! i))) idx rows)))"
      using that by (auto dest: set_zip_leftD)
    then show ?thesis
      unfolding eq by (rule foldl_update_other)
  qed
qed

lemma scatter_written:
  assumes "scatter T idx rows = Inr T'" and "length rows = length idx" and "i \<in> set idx"
  shows "\<exists>j<length idx. idx ! j = i \<and> T' ! i = fit_row (length (T ! i)) (rows ! j)
           \<and> (length (rows ! j) = length (T ! i) \<or> length (rows ! j) = 1)"
proof -
  let ?rows = "map2 (\<lambda>i. fit_row (length (T ! i))) idx rows"
  from assms(1) have "T' = foldl (\<lambda>T' (i, r). T'[i := fit_row (length (T ! i)) r]) T (zip idx rows)"
    and ok: "\<not> list_ex (\<lambda>(i, r). length r \<noteq> length (T ! i) \<and> length r \<noteq> 1) (zip idx rows)"
    by (auto simp: scatter_def split: if_splits)
  then have eq: "T' = foldl (\<lambda>T' (i, r). T'[i := r]) T (zip idx ?rows)"
    using foldl_update_map [OF assms(2)] by simp
  have len: "length ?rows = length idx"
    using assms(2) by simp
  from foldl_scatter_last [OF len assms(3) scatter_Inr(3) [OF assms(1,2)]]
  obtain j where j: "j < length idx" "idx ! j = i" "T' ! i = ?rows ! j"
    unfolding eq by blast
  have r: "?rows ! j = fit_row (length (T ! i)) (rows ! j)"
    using j(1,2) assms(2) by simp
  have "(idx ! j, rows ! j) \<in> set (zip idx rows)"
    using j(1) assms(2) by (metis in_set_zip fst_conv snd_conv length_zip min.idem nth_zip nth_mem)
  then have "length (rows ! j) = length (T ! i) \<or> length (rows ! j) = 1"
    using ok j(2) by (auto simp: list_ex_iff)
  then show ?thesis
    using j r by auto
qed

lemma fit_row_length: "length (fit_row n r) = n"
  by (simp add: fit_row_def)

lemma fit_row_same: "length r = n \<Longrightarrow> fit_row n r = r"
  by (simp add: fit_row_def)

lemma scatter_width:
  assumes "scatter T idx rows = Inr T'" and "length rows = length idx"
  shows "length (T' ! i) = length (T ! i)"
proof (cases "i \<in> set idx")
  case True
  from scatter_written [OF assms True] show ?thesis
    by (auto simp: fit_row_length)
next
  case False
  then show ?thesis
    using scatter_Inr(2) [OF assms] by simp
qed

subsection \<open>Normalization\<close>

lemma normalize_eps_pos: "0 < normalize_eps"
  by (simp add: normalize_eps_def)

lemma l1_norm_nonneg: "0 \<le> l1_norm r"
  unfolding l1_norm_def by (rule sum_list_nonneg) auto

lemma normalize_divisor_pos: "0 < max (l1_norm r) normalize_eps"
  using normalize_eps_pos by (simp add: max_def)

lemma normalize_l1_Inr:
  "normalize_l1 r = Inr (map (\<lambda>x. x / max (l1_norm r) normalize_eps) r)"
  using normalize_divisor_pos [of r] by (simp add: normalize_l1_def div_row_def)

lemma normalize_l1_length: "normalize_l1 r = Inr v \<Longrightarrow> length v = length r"
  unfolding normalize_l1_Inr by auto

lemma normalize_rows_Inr:
  "normalize_rows rs = Inr (map (\<lambda>r. map (\<lambda>x. x / max (l1_norm r) normalize_eps) r) rs)"
  by (induction rs) (simp_all add: normalize_l1_Inr)

lemma sum_list_divide: "(\<Sum>x\<leftarrow>r. x / c) = sum_list r / (c :: real)"
  by (induction r) (simp_all add: add_divide_distrib)

lemma l1_norm_sum: "\<forall>x\<in>set r. 0 \<le> x \<Longrightarrow> l1_norm r = sum_list r"
  by (induction r) (simp_all add: l1_norm_def)

lemma normalize_l1_sum:
  assumes "\<forall>x\<in>set r. 0 \<le> x" and "normalize_eps \<le> sum_list r" and "normalize_l1 r = Inr v"
  shows "sum_list v = 1"
proof -
  have "max (l1_norm r) normalize_eps = sum_list r"
    using assms(2) l1_norm_sum [OF assms(1)] by simp
  moreover have "0 < sum_list r"
    using assms(2) normalize_eps_pos by simp
  moreover have "v = map (\<lambda>x. x / max (l1_norm r) normalize_eps) r"
    using assms(3) by (simp add: normalize_l1_Inr)
  ultimately show ?thesis
    by (simp add: sum_list_divide)
qed

lemma divide_zero_row: "\<forall>x\<in>set r. x = 0 \<Longrightarrow> map (\<lambda>x. x / c) r = (r :: real list)"
  by (induction r) auto

lemma normalize_l1_zero: "zero_row r \<Longrightarrow> normalize_l1 r = Inr r"
  by (simp add: normalize_l1_Inr zero_row_def list_all_iff divide_zero_row)

lemma normalize_l1_unit:
  assumes "\<forall>x\<in>set r. 0 \<le> x" and "r = [] \<or> sum_list r = 1"
  shows "normalize_l1 r = Inr r"
proof (cases "r = []")
  case True
  then show ?thesis
    by (simp add: normalize_l1_Inr)
next
  case False
  then have "max (l1_norm r) normalize_eps = 1"
    using assms l1_norm_sum [OF assms(1)] normalize_eps_def by simp
  then show ?thesis
    by (simp add: normalize_l1_Inr)
qed

subsection \<open>One batch\<close>

lemma ema_rows_Inr:
  "ema_rows mom old probs = Inr new \<Longrightarrow>
     length new = min (length old) (length probs)
     \<and> (\<forall>j<length new. ema_row mom (old ! j) (probs ! j) = Inr (new ! j))"
proof (induction mom old probs arbitrary: new rule: ema_rows.induct)
  case (1 mom a old p probs)
  from "1.prems" obtain r rs where r: "ema_row mom a p = Inr r"
    and rs: "ema_rows mom old probs = Inr rs" and new: "new = r # rs"
    by (auto split: sum.splits)
  from "1.IH" [OF r rs] show ?case
    using r by (auto simp: new nth_Cons split: nat.splits)
qed simp_all

lemma ema_row_length: "ema_row mom a p = Inr r \<Longrightarrow> length r = length a"
  by (auto simp: ema_row_def split: if_splits)

lemma update_batch_inv:
  assumes "update_batch fwd mom b (Zt, zt) = Inr (Zt', zt')"
  shows "length Zt' = length Zt \<and> length zt' = length zt
     \<and> (\<forall>i\<in>set (ids b). i < length Zt' \<and> i < length zt'
           \<and> (\<exists>v. normalize_l1 (Zt' ! i) = Inr v \<and> zt' ! i = fit_row (length (zt ! i)) v
                  \<and> (length v = length (zt ! i) \<or> length v = 1))
           \<and> (\<exists>x\<in>set (inputs b). ema_row mom (Zt ! i) (softmax (fwd x)) = Inr (Zt' ! i)))
     \<and> (\<forall>i. i \<notin> set (ids b) \<longrightarrow> Zt' ! i = Zt ! i \<and> zt' ! i = zt ! i)
     \<and> (\<forall>i. length (Zt' ! i) = length (Zt ! i) \<and> length (zt' ! i) = length (zt ! i))"
proof -
  let ?g = "\<lambda>r. map (\<lambda>x. x / max (l1_norm r) normalize_eps) r"
  from assms obtain old new cur where g0: "gather Zt (ids b) = Inr old"
    and e: "ema_rows mom old (map (\<lambda>x. softmax (fwd x)) (inputs b)) = Inr new"
    and sZ: "scatter Zt (ids b) new = Inr Zt'" and g: "gather Zt' (ids b) = Inr cur"
    and sz: "scatter zt (ids b) (map ?g cur) = Inr zt'"
    by (auto simp: update_batch_def Let_def normalize_rows_Inr split: sum.splits)
  have old: "old = map (\<lambda>i. Zt ! i) (ids b)"
    using gather_Inr [OF g0] by simp
  have cur: "cur = map (\<lambda>i. Zt' ! i) (ids b)"
    using gather_Inr [OF g] by simp
  have lb: "length (inputs b) = length (ids b)"
    by (simp add: ids_def inputs_def)
  note E = ema_rows_Inr [OF e]
  have lnew: "length new = length (ids b)"
    using E lb by (simp add: old)
  have lz: "length (map ?g cur) = length (ids b)"
    by (simp add: cur)
  have rngZ: "\<forall>i\<in>set (ids b). i < length Zt'"
    using scatter_Inr(1,3) [OF sZ lnew] by simp
  have rngz: "\<forall>i\<in>set (ids b). i < length zt'"
    using scatter_Inr(1,3) [OF sz lz] by simp
  have W: "(\<exists>v. normalize_l1 (Zt' ! i) = Inr v \<and> zt' ! i = fit_row (length (zt ! i)) v
                  \<and> (length v = length (zt ! i) \<or> length v = 1))
           \<and> (\<exists>x\<in>set (inputs b). ema_row mom (Zt ! i) (softmax (fwd x)) = Inr (Zt' ! i))"
    if i: "i \<in> set (ids b)" for i
  proof -
    from scatter_written [OF sz lz i] obtain j where j: "j < length (ids b)" "ids b ! j = i"
      "zt' ! i = fit_row (length (zt ! i)) (map ?g cur ! j)"
      "length (map ?g cur ! j) = length (zt ! i) \<or> length (map ?g cur ! j) = 1"
      by blast
    have "map ?g cur ! j = ?g (Zt' ! i)"
      using j(1,2) by (simp add: cur)
    then have n: "normalize_l1 (Zt' ! i) = Inr (map ?g cur ! j)"
      by (simp add: normalize_l1_Inr)
    from scatter_written [OF sZ lnew i] obtain k where k: "k < length (ids b)" "ids b ! k = i"
      "Zt' ! i = fit_row (length (Zt ! i)) (new ! k)"
      by blast
    have "k < length new"
      using k(1) lnew by simp
    with E have "ema_row mom (old ! k) (map (\<lambda>x. softmax (fwd x)) (inputs b) ! k) = Inr (new ! k)"
      by blast
    moreover have "map (\<lambda>x. softmax (fwd x)) (inputs b) ! k = softmax (fwd (inputs b ! k))"
      using k(1) lb by simp
    moreover have ok: "old ! k = Zt ! i"
      using k(1,2) by (simp add: old)
    ultimately have em: "ema_row mom (Zt ! i) (softmax (fwd (inputs b ! k))) = Inr (new ! k)"
      by simp
    have "Zt' ! i = new ! k"
      using k(3) ema_row_length [OF em] by (simp add: fit_row_same)
    then have "ema_row mom (Zt ! i) (softmax (fwd (inputs b ! k))) = Inr (Zt' ! i)"
      using em by simp
    moreover have "inputs b ! k \<in> set (inputs b)"
      using k(1) lb by simp
    ultimately show ?thesis
      using n j(3,4) by blast
  qed
  have wd: "length (Zt' ! i) = length (Zt ! i) \<and> length (zt' ! i) = length (zt ! i)" for i
    using scatter_width [OF sZ lnew] scatter_width [OF sz lz] by simp
  show ?thesis
    using scatter_Inr(1,2) [OF sZ lnew] scatter_Inr(1,2) [OF sz lz] W rngZ rngz wd by auto
qed

subsection \<open>Softmax rows and their moving average\<close>

lemma sum_exp_nonneg: "0 \<le> (\<Sum>y\<leftarrow>r. exp (y :: real))"
  by (rule sum_list_nonneg) auto

lemma softmax_nonneg: "\<forall>x\<in>set (softmax r). 0 \<le> x"
  using sum_exp_nonneg [of r] by (auto simp: softmax_def)

lemma sum_exp_pos: "r \<noteq> [] \<Longrightarrow> 0 < (\<Sum>y\<leftarrow>r. exp (y :: real))"
proof (cases r)
  case Nil
  assume "r \<noteq> []"
  with Nil show ?thesis by simp
next
  case (Cons a r')
  then show ?thesis
    using sum_exp_nonneg [of r'] by (simp add: add_pos_nonneg)
qed

lemma sum_list_divide_map: "(\<Sum>x\<leftarrow>r. f x / c) = (\<Sum>x\<leftarrow>r. f x) / (c :: real)"
  by (induction r) (simp_all add: add_divide_distrib)

lemma softmax_sum: "r \<noteq> [] \<Longrightarrow> sum_list (softmax r) = 1"
  using sum_exp_pos [of r] by (simp add: softmax_def sum_list_divide_map)

lemma softmax_length: "length (softmax r) = length r"
  by (simp add: softmax_def)

lemma softmax_single: "length (softmax r) = 1 \<Longrightarrow> softmax r = [1]"
  by (cases r) (auto simp: softmax_def)

lemma ema_map2_nonneg:
  assumes "0 \<le> mom" and "mom \<le> 1" and "mom = 0 \<or> (\<forall>x\<in>set a. 0 \<le> x)"
    and "\<forall>x\<in>set p. 0 \<le> x"
  shows "\<forall>x\<in>set (map2 (\<lambda>u v. mom * u + (1 - mom) * v) a p). (0::real) \<le> x"
proof
  fix x assume "x \<in> set (map2 (\<lambda>u v. mom * u + (1 - mom) * v) a p)"
  then obtain u v where uv: "(u, v) \<in> set (zip a p)" and x: "x = mom * u + (1 - mom) * v"
    by auto
  have v: "0 \<le> v"
    using uv assms(4) by (auto dest: set_zip_rightD)
  show "0 \<le> x"
  proof (cases "mom = 0")
    case True
    then show ?thesis
      using v by (simp add: x)
  next
    case False
    then have "0 \<le> u"
      using uv assms(3) by (auto dest: set_zip_leftD)
    then show ?thesis
      using v assms(1,2) by (simp add: x)
  qed
qed

lemma ema_map2_sum:
  "length a = length p \<Longrightarrow>
     sum_list (map2 (\<lambda>u v. mom * u + (1 - mom) * v) a p)
       = mom * sum_list a + (1 - mom) * sum_list (p :: real list)"
  by (induction a p rule: list_induct2) (simp_all add: algebra_simps)

lemma ema_map_sum:
  "(\<Sum>u\<leftarrow>a. mom * u + (1 - mom) * c) = mom * sum_list a + (1 - mom) * c * real (length a)"
  by (induction a) (simp_all add: algebra_simps)

lemma convex_ge_one:
  assumes "0 \<le> mom" and "mom \<le> 1" and "mom = 0 \<or> 1 \<le> s" and "1 \<le> t"
  shows "(1::real) \<le> mom * s + (1 - mom) * t"
proof (cases "mom = 0")
  case True
  then show ?thesis
    using assms(4) by simp
next
  case False
  then have s: "1 \<le> s"
    using assms(3) by simp
  have "mom * 1 \<le> mom * s"
    using assms(1) s by (rule mult_left_mono [rotated])
  moreover have "(1 - mom) * 1 \<le> (1 - mom) * t"
    using assms(2,4) by (intro mult_left_mono) simp_all
  ultimately show ?thesis
    by simp
qed

lemma prob_row_same_width:
  assumes "0 \<le> mom" and "mom \<le> 1" and "mom = 0 \<or> prob_row a"
    and "length (softmax l) = length a"
  shows "prob_row (map2 (\<lambda>u v. mom * u + (1 - mom) * v) a (softmax l))"
proof -
  have nn: "\<forall>x\<in>set (map2 (\<lambda>u v. mom * u + (1 - mom) * v) a (softmax l)). 0 \<le> x"
    using assms(1-3) softmax_nonneg [of l]
    by (intro ema_map2_nonneg) (auto simp: prob_row_def list_all_iff)
  show ?thesis
  proof (cases "a = []")
    case True
    then show ?thesis
      by (simp add: prob_row_def)
  next
    case False
    then have l: "l \<noteq> []"
      using assms(4) by (auto simp: softmax_def)
    have "mom = 0 \<or> sum_list a = 1"
      using assms(3) False by (auto simp: prob_row_def)
    then have "mom * sum_list a + (1 - mom) * 1 = 1"
      by auto
    then have "sum_list (map2 (\<lambda>u v. mom * u + (1 - mom) * v) a (softmax l)) = 1"
      using ema_map2_sum [OF assms(4) [symmetric], of mom] softmax_sum [OF l] by simp
    then show ?thesis
      using nn by (simp add: prob_row_def list_all_iff)
  qed
qed

lemma ensemble_row_same_width:
  assumes "0 \<le> mom" and "mom \<le> 1" and "mom = 0 \<or> ensemble_row a"
    and "length (softmax l) = length a"
  shows "ensemble_row (map2 (\<lambda>u v. mom * u + (1 - mom) * v) a (softmax l))"
proof -
  have nn: "\<forall>x\<in>set (map2 (\<lambda>u v. mom * u + (1 - mom) * v) a (softmax l)). 0 \<le> x"
    using assms(1-3) softmax_nonneg [of l]
    by (intro ema_map2_nonneg) (auto simp: ensemble_row_def list_all_iff)
  show ?thesis
  proof (cases "a = []")
    case True
    then show ?thesis
      by (simp add: ensemble_row_def)
  next
    case False
    then have l: "l \<noteq> []"
      using assms(4) by (auto simp: softmax_def)
    have "mom = 0 \<or> 1 \<le> sum_list a"
      using assms(3) False by (auto simp: ensemble_row_def)
    then have "1 \<le> mom * sum_list a + (1 - mom) * 1"
      using assms(1,2) by (intro convex_ge_one) simp_all
    then have "1 \<le> sum_list (map2 (\<lambda>u v. mom * u + (1 - mom) * v) a (softmax l))"
      using ema_map2_sum [OF assms(4) [symmetric], of mom] softmax_sum [OF l] by simp
    then show ?thesis
      using nn by (simp add: ensemble_row_def list_all_iff)
  qed
qed

lemma ensemble_row_broadcast:
  assumes "0 \<le> mom" and "mom \<le> 1" and "mom = 0 \<or> ensemble_row a"
  shows "ensemble_row (map (\<lambda>u. mom * u + (1 - mom) * 1) a)"
proof (cases "a = []")
  case True
  then show ?thesis
    by (simp add: ensemble_row_def)
next
  case False
  then have len: "1 \<le> real (length a)"
    by (cases a) simp_all
  have nn: "\<forall>x\<in>set (map (\<lambda>u. mom * u + (1 - mom) * 1) a). 0 \<le> x"
  proof (cases "mom = 0")
    case True
    then show ?thesis by simp
  next
    case False
    then have "\<forall>u\<in>set a. 0 \<le> u"
      using assms(3) by (simp add: ensemble_row_def list_all_iff)
    then show ?thesis
      using assms(1,2) by auto
  qed
  have "mom = 0 \<or> 1 \<le> sum_list a"
    using assms(3) False by (auto simp: ensemble_row_def)
  then have "1 \<le> mom * sum_list a + (1 - mom) * real (length a)"
    using assms(1,2) len by (intro convex_ge_one) simp_all
  then have "1 \<le> sum_list (map (\<lambda>u. mom * u + (1 - mom) * 1) a)"
    using ema_map_sum [of mom 1 a] by simp
  then show ?thesis
    using nn by (simp add: ensemble_row_def list_all_iff)
qed

lemma ema_closed_ensemble_row: "ema_closed ensemble_row C"
  unfolding ema_closed_def
proof (intro allI impI, elim conjE)
  fix mom a m x r
  assume mom: "0 \<le> mom" "mom \<le> 1" "mom = 0 \<or> ensemble_row a"
    and e: "ema_row mom a (softmax (forward_eval C m x)) = Inr r"
  let ?p = "softmax (forward_eval C m x)"
  show "ensemble_row r"
  proof (cases "length ?p = length a")
    case True
    then have "r = map2 (\<lambda>u v. mom * u + (1 - mom) * v) a ?p"
      using e by (simp add: ema_row_def)
    then show ?thesis
      using ensemble_row_same_width [OF mom True] by simp
  next
    case False
    then have one: "length ?p = 1" and r: "r = map (\<lambda>u. mom * u + (1 - mom) * hd ?p) a"
      using e by (auto simp: ema_row_def split: if_splits)
    have "hd ?p = 1"
      using softmax_single [OF one] by simp
    then show ?thesis
      using ensemble_row_broadcast [OF mom] by (simp add: r)
  qed
qed

lemma ema_closed_prob_row:
  assumes "\<forall>m x. length (forward_eval C m x) \<noteq> 1"
  shows "ema_closed prob_row C"
  unfolding ema_closed_def
proof (intro allI impI, elim conjE)
  fix mom a m x r
  assume mom: "0 \<le> mom" "mom \<le> 1" "mom = 0 \<or> prob_row a"
    and e: "ema_row mom a (softmax (forward_eval C m x)) = Inr r"
  let ?p = "softmax (forward_eval C m x)"
  have "length ?p \<noteq> 1"
    using assms by (simp add: softmax_length)
  then have len: "length ?p = length a" and r: "r = map2 (\<lambda>u v. mom * u + (1 - mom) * v) a ?p"
    using e by (auto simp: ema_row_def split: if_splits)
  show "prob_row r"
    using prob_row_same_width [OF mom len] by (simp add: r)
qed

subsection \<open>The invariant of the tables\<close>

lemma update_batch_table_inv:
  assumes cl: "\<And>a x r. mom = 0 \<or> P a \<Longrightarrow> ema_row mom a (softmax (fwd x)) = Inr r \<Longrightarrow> P r"
    and inv: "table_inv P mom S W T" and sub: "set (ids b) \<subseteq> S"
    and upd: "update_batch fwd mom b T = Inr T'"
  shows "table_inv P mom S (W \<union> set (ids b)) T'"
proof -
  obtain Zt zt where T: "T = (Zt, zt)" by (cases T)
  obtain Zt' zt' where T': "T' = (Zt', zt')" by (cases T')
  note U = update_batch_inv [OF upd [unfolded T T']]
  have len: "length Zt' = length Zt" "length zt' = length zt"
    using U by simp_all
  have wr: "normalize_l1 (Zt' ! i) = Inr (zt' ! i) \<and> P (Zt' ! i)" if i: "i \<in> set (ids b)" for i
  proof -
    from U i have il: "i < length Zt'"
      by blast
    from U i obtain v where n: "normalize_l1 (Zt' ! i) = Inr v"
      and zv: "zt' ! i = fit_row (length (zt ! i)) v"
      by blast
    from U i obtain x where e: "ema_row mom (Zt ! i) (softmax (fwd x)) = Inr (Zt' ! i)"
      by blast
    have "mom = 0 \<or> P (Zt ! i)"
      using inv sub i il len by (auto simp: table_inv_def T)
    from cl [OF this e] have p: "P (Zt' ! i)" .
    have "normalize_l1 (Zt ! i) = Inr (zt ! i)"
      using inv il len by (simp add: table_inv_def T)
    then have "length (zt ! i) = length (Zt ! i)"
      by (rule normalize_l1_length)
    moreover have "length v = length (Zt' ! i)"
      using n by (rule normalize_l1_length)
    ultimately have "length v = length (zt ! i)"
      using ema_row_length [OF e] by simp
    then have "zt' ! i = v"
      using zv by (simp add: fit_row_same)
    then show ?thesis
      using n p by simp
  qed
  have keep: "Zt' ! i = Zt ! i \<and> zt' ! i = zt ! i" if "i \<notin> set (ids b)" for i
    using U that by blast
  have a: "length zt' = length Zt'"
    using inv len by (simp add: table_inv_def T)
  have b: "normalize_l1 (Zt' ! i) = Inr (zt' ! i) \<and> (zero_row (Zt' ! i) \<or> P (Zt' ! i))"
    if "i < length Zt'" for i
  proof (cases "i \<in> set (ids b)")
    case True
    then show ?thesis
      using wr by blast
  next
    case False
    then show ?thesis
      using keep [OF False] inv that len by (simp add: table_inv_def T)
  qed
  have c: "mom = 0 \<or> P (Zt' ! i)" if "i \<in> S" "i < length Zt'" for i
  proof (cases "i \<in> set (ids b)")
    case True
    then show ?thesis
      using wr by blast
  next
    case False
    then show ?thesis
      using keep [OF False] inv that len by (simp add: table_inv_def T)
  qed
  have d: "P (Zt' ! i)" if "i \<in> W \<union> set (ids b)" "i < length Zt'" for i
  proof (cases "i \<in> set (ids b)")
    case True
    then show ?thesis
      using wr by blast
  next
    case False
    then show ?thesis
      using keep [OF False] inv that len by (simp add: table_inv_def T)
  qed
  show ?thesis
    unfolding table_inv_def T' using a b c d by simp
qed

lemma update_batches_table_inv:
  assumes cl: "\<And>a x r. mom = 0 \<or> P a \<Longrightarrow> ema_row mom a (softmax (fwd x)) = Inr r \<Longrightarrow> P r"
  shows "table_inv P mom S W T \<Longrightarrow> \<forall>b\<in>set bs. set (ids b) \<subseteq> S \<Longrightarrow>
     update_batches fwd mom bs T = Inr T' \<Longrightarrow>
     table_inv P mom S (W \<union> (\<Union>b\<in>set bs. set (ids b))) T'"
proof (induction bs arbitrary: T W)
  case Nil
  then show ?case by simp
next
  case (Cons b bs)
  from Cons.prems(3) obtain T1 where b: "update_batch fwd mom b T = Inr T1"
    and rest: "update_batches fwd mom bs T1 = Inr T'"
    by (auto split: sum.splits)
  have "table_inv P mom S (W \<union> set (ids b)) T1"
    using update_batch_table_inv [OF cl Cons.prems(1) _ b] Cons.prems(2) by simp
  from Cons.IH [OF this _ rest] Cons.prems(2)
  have "table_inv P mom S (W \<union> set (ids b) \<union> (\<Union>b\<in>set bs. set (ids b))) T'"
    by simp
  moreover have "W \<union> set (ids b) \<union> (\<Union>b\<in>set bs. set (ids b))
      = W \<union> (\<Union>b\<in>set (b # bs). set (ids b))"
    by auto
  ultimately show ?case
    by simp
qed

lemma update_batches_append:
  "update_batches fwd mom (xs @ ys) T =
     (case update_batches fwd mom xs T of
        Inl e \<Rightarrow> Inl e
      | Inr T' \<Rightarrow> update_batches fwd mom ys T')"
  by (induction xs arbitrary: T) (auto split: sum.splits)

lemma update_loaders_batches:
  "update_loaders fwd mom d es T = update_batches fwd mom (batches_from d es) T"
  by (induction es arbitrary: T)
     (auto simp: batches_from_def update_batches_append split: sum.splits)


lemma update_Z_batches:
  "update_Z C d st =
     (case update_batches (forward_eval C (model st)) (momentum st)
             (visited_batches d (trainloader_list st)) (Z st, z st) of
        Inl e \<Rightarrow> Inl e
      | Inr T \<Rightarrow> Inr (st\<lparr>Z := fst T, z := snd T\<rparr>))"
  by (simp add: update_Z_def update_loaders_batches visited_batches_def)

lemma batches_from_Nil: "batches_from d [] = []"
  by (simp add: batches_from_def)

lemma batches_from_Cons:
  "batches_from d ((k, loader) # es) = (if int k < d then [] else loader) @ batches_from d es"
  by (simp add: batches_from_def)

lemma batches_from_mono: "w \<le> d \<Longrightarrow> set (batches_from d es) \<subseteq> set (batches_from w es)"
proof (induction es)
  case Nil
  then show ?case
    by (simp add: batches_from_Nil)
next
  case (Cons e es)
  obtain k loader where e: "e = (k, loader)" by (cases e)
  show ?case
    using Cons by (auto simp: e batches_from_Cons)
qed

lemma touched_ids_mono: "w \<le> d \<Longrightarrow> touched_ids d ls \<subseteq> touched_ids w ls"
  using batches_from_mono [of w d "enumerate 0 ls"]
  by (auto simp: touched_ids_def visited_batches_def)

lemma table_inv_mono:
  "table_inv P mom S W T \<Longrightarrow> S' \<subseteq> S \<Longrightarrow> W' \<subseteq> W \<Longrightarrow> table_inv P mom S' W' T"
  unfolding table_inv_def by blast

subsection \<open>The invariant of the adapter state\<close>

lemma ema_closedD:
  "ema_closed P C \<Longrightarrow> 0 \<le> mom \<Longrightarrow> mom \<le> 1 \<Longrightarrow> mom = 0 \<or> P a \<Longrightarrow>
     ema_row mom a (softmax (forward_eval C m x)) = Inr r \<Longrightarrow> P r"
  unfolding ema_closed_def by blast

lemma update_prefix_inv:
  assumes cl: "ema_closed P C" and inv: "ensemble_inv P w st" and le: "w \<le> d"
    and sub: "set bs \<subseteq> set (visited_batches d (trainloader_list st))"
    and upd: "update_batches (forward_eval C (model st)) (momentum st) bs (Z st, z st) = Inr T'"
  shows "table_inv P (momentum st) (touched_ids w (trainloader_list st))
           (\<Union>b\<in>set bs. set (ids b)) T'"
proof -
  have mom: "0 \<le> momentum st" "momentum st \<le> 1"
    using inv by (simp_all add: ensemble_inv_def)
  have t: "table_inv P (momentum st) (touched_ids w (trainloader_list st)) {} (Z st, z st)"
    using inv by (simp add: ensemble_inv_def)
  have "\<forall>b\<in>set bs. set (ids b) \<subseteq> touched_ids d (trainloader_list st)"
    using sub by (auto simp: touched_ids_def)
  then have s: "\<forall>b\<in>set bs. set (ids b) \<subseteq> touched_ids w (trainloader_list st)"
    using touched_ids_mono [OF le] by blast
  have "table_inv P (momentum st) (touched_ids w (trainloader_list st))
          ({} \<union> (\<Union>b\<in>set bs. set (ids b))) T'"
    by (rule update_batches_table_inv [OF ema_closedD [OF cl mom] t s upd])
  then show ?thesis
    by simp
qed

lemma update_Z_Inr:
  assumes "update_Z C d st = Inr s1"
  shows "update_batches (forward_eval C (model st)) (momentum st)
           (visited_batches d (trainloader_list st)) (Z st, z st) = Inr (Z s1, z s1)
         \<and> s1 = st\<lparr>Z := Z s1, z := z s1\<rparr>"
  using assms by (auto simp: update_Z_batches split: sum.splits)

lemma update_Z_table_inv:
  assumes cl: "ema_closed P C" and inv: "ensemble_inv P w st" and le: "w \<le> d"
    and upd: "update_Z C d st = Inr s1"
  shows "table_inv P (momentum st) (touched_ids w (trainloader_list st))
           (touched_ids d (trainloader_list st)) (Z s1, z s1)"
  using update_prefix_inv [OF cl inv le subset_refl conjunct1 [OF update_Z_Inr [OF upd]]]
  by (simp add: touched_ids_def)

lemma py_index_in_set: "py_index xs i = Inr x \<Longrightarrow> x \<in> set xs"
  by (auto simp: py_index_def split: if_splits)

lemma momentum_value_range:
  "0 \<le> b \<Longrightarrow> 0 \<le> nd \<Longrightarrow> 0 < momentum_value b nd \<and> momentum_value b nd \<le> 1"
  by (simp add: momentum_value_def)

lemma calc_momentum_Inr:
  assumes "calc_momentum d st = Inr s2"
  shows "\<exists>nd\<in>set (norm_dist_list st).
           s2 = st\<lparr>momentum := momentum_value (beta st) nd,
                   momentum_record_list := momentum_record_list st @ [momentum_value (beta st) nd]\<rparr>"
  using assms by (auto simp: calc_momentum_def Let_def dest: py_index_in_set split: sum.splits)

lemma candidate_inv:
  assumes cl: "ema_closed P C" and inv: "ensemble_inv P w st" and le: "w \<le> d"
    and run: "adapt_train_eval C d q ep st = Inr (st', m, sc)"
  shows "ensemble_inv P d st'"
proof -
  from run obtain s1 pl where upd: "update_Z C d st = Inr s1"
    and cm: "calc_momentum d (s1\<lparr>pl_acc_list := pl_acc_list s1 @ [pl]\<rparr>) = Inr st'"
    by (auto simp: adapt_train_eval_def split: sum.splits option.splits prod.splits)
  note s1 = conjunct2 [OF update_Z_Inr [OF upd]]
  have f: "beta s1 = beta st" "norm_dist_list s1 = norm_dist_list st"
    "trainloader_list s1 = trainloader_list st"
    by (subst s1, simp)+
  from calc_momentum_Inr [OF cm] obtain nd where nd: "nd \<in> set (norm_dist_list st)"
    and st': "st' = s1\<lparr>pl_acc_list := pl_acc_list s1 @ [pl],
                        momentum := momentum_value (beta st) nd,
                        momentum_record_list := momentum_record_list s1 @ [momentum_value (beta st) nd]\<rparr>"
    by (auto simp: f)
  have b: "0 \<le> beta st" and ds: "\<forall>x\<in>set (norm_dist_list st). 0 \<le> x"
    using inv by (simp_all add: ensemble_inv_def)
  have rng: "0 < momentum_value (beta st) nd \<and> momentum_value (beta st) nd \<le> 1"
    using momentum_value_range [OF b] ds nd by blast
  note t = update_Z_table_inv [OF cl inv le upd]
  have "table_inv P (momentum_value (beta st) nd) (touched_ids d (trainloader_list st)) {}
          (Z s1, z s1)"
    using t unfolding table_inv_def by blast
  then show ?thesis
    using rng b ds by (simp add: ensemble_inv_def st' f)
qed

lemma ensemble_inv_mono: "ensemble_inv P w st \<Longrightarrow> w \<le> d \<Longrightarrow> ensemble_inv P d st"
  using touched_ids_mono [of w d "trainloader_list st"]
  unfolding ensemble_inv_def by (blast intro: table_inv_mono)

lemma ensemble_inv_model: "ensemble_inv P w st \<Longrightarrow> ensemble_inv P w (st\<lparr>model := m\<rparr>)"
  by (simp add: ensemble_inv_def)

lemma sweep_inv:
  assumes cl: "ema_closed P C"
  shows "ensemble_inv P d st \<Longrightarrow> sweep C d ep qs (st, perf) = Inr (st', perf') \<Longrightarrow>
     ensemble_inv P d st'"
proof (induction qs arbitrary: st perf)
  case Nil
  then show ?case by simp
next
  case (Cons q qs)
  from Cons.prems(2) obtain s1 m sc where c: "adapt_train_eval C d q ep st = Inr (s1, m, sc)"
    and rest: "sweep C d ep qs (s1, dict_set perf q (m, sc)) = Inr (st', perf')"
    by (auto split: sum.splits)
  have "ensemble_inv P d s1"
    by (rule candidate_inv [OF cl Cons.prems(1) order_refl c])
  then show ?case
    using rest by (rule Cons.IH)
qed

lemma in_order_run_inv:
  assumes cl: "ema_closed P C"
  shows "in_order_run C w st \<Longrightarrow> ensemble_inv P w st"
proof (induction rule: in_order_run.induct)
  case (start Z0 b dists w mdl loaders)
  have "normalize_l1 (Z0 ! i) = Inr (Z0 ! i) \<and> zero_row (Z0 ! i)" if "i < length Z0" for i
    using start(1) that normalize_l1_zero [of "Z0 ! i"] by (simp add: list_all_length)
  then show ?case
    using start(2,3) by (simp add: ensemble_inv_def table_inv_def init_def list_all_iff)
next
  case (candidate w st d confidence_q adapt_epochs st' m score)
  show ?case
    by (rule candidate_inv [OF cl candidate.IH candidate.hyps(2,3)])
next
  case (domain w st d confidence_q_list adapt_epochs st')
  from adapt_Inr [OF domain.hyps(3)] obtain sf perf m where
    sw: "sweep C d adapt_epochs confidence_q_list (st, []) = Inr (sf, perf)"
    and st': "st' = sf\<lparr>model := m\<rparr>"
    by blast
  have "ensemble_inv P d sf"
    by (rule sweep_inv [OF cl ensemble_inv_mono [OF domain.IH domain.hyps(2)] sw])
  then show ?case
    unfolding st' by (rule ensemble_inv_model)
qed

lemma table_inv_rows_sum_to_one:
  assumes "table_inv ensemble_row mom S W (Zt, zt)"
  shows "rows_sum_to_one Zt zt"
proof -
  have "zero_row (Zt ! i)
      \<or> (i < length zt \<and> normalize_l1 (Zt ! i) = Inr (zt ! i) \<and> sum_list (zt ! i) = 1)"
    if i: "i < length Zt" for i
  proof (cases "zero_row (Zt ! i)")
    case True
    then show ?thesis by simp
  next
    case False
    with assms i have n: "normalize_l1 (Zt ! i) = Inr (zt ! i)" and e: "ensemble_row (Zt ! i)"
      and l: "i < length zt"
      by (auto simp: table_inv_def)
    have ne: "Zt ! i \<noteq> []"
      using False by (auto simp: zero_row_def)
    have "\<forall>x\<in>set (Zt ! i). 0 \<le> x" and "1 \<le> sum_list (Zt ! i)"
      using e ne by (simp_all add: ensemble_row_def list_all_iff)
    moreover have "normalize_eps \<le> 1"
      by (simp add: normalize_eps_def)
    ultimately have "sum_list (zt ! i) = 1"
      using normalize_l1_sum [OF _ _ n] by simp
    then show ?thesis
      using n l by simp
  qed
  then show ?thesis
    by (simp add: rows_sum_to_one_def list_all_iff)
qed

text \<open>
  C6: on a run in domain order, after every ensemble update that returns, and after each
  iteration of its loop (the first \<open>k\<close> batches, for every \<open>k\<close>, whether or not the
  later ones raise), every sample id whose row of \<open>Z\<close> is not all-zero has a row of \<open>z\<close>
  that is the L1 normalization of its row of \<open>Z\<close> and sums to 1. The sum is exactly 1 in
  the arithmetic of the reals, which is what the tolerance of the floats stands for. The
  rows written by earlier updates are covered as well as those of the update at hand, and
  the update is the loop over the batches of the loaders from \<^verbatim>\<open>domain_idx\<close> on.
\<close>

theorem update_Z_rows_sum_to_one:
  assumes "in_order_run C w st" and "w \<le> d"
  shows "(\<forall>s1. update_Z C d st = Inr s1 \<longrightarrow> rows_sum_to_one (Z s1) (z s1))
       \<and> (\<forall>k Zt zt. update_batches (forward_eval C (model st)) (momentum st)
                        (take k (visited_batches d (trainloader_list st))) (Z st, z st)
                      = Inr (Zt, zt) \<longrightarrow> rows_sum_to_one Zt zt)
       \<and> update_Z C d st =
           (case update_batches (forward_eval C (model st)) (momentum st)
                   (visited_batches d (trainloader_list st)) (Z st, z st) of
              Inl e \<Rightarrow> Inl e
            | Inr T \<Rightarrow> Inr (st\<lparr>Z := fst T, z := snd T\<rparr>))"
proof -
  note inv = in_order_run_inv [OF ema_closed_ensemble_row assms(1)]
  have a: "rows_sum_to_one (Z s1) (z s1)" if "update_Z C d st = Inr s1" for s1
    using update_Z_table_inv [OF ema_closed_ensemble_row inv assms(2) that]
    by (rule table_inv_rows_sum_to_one)
  have b: "rows_sum_to_one Zt zt"
    if "update_batches (forward_eval C (model st)) (momentum st)
          (take k (visited_batches d (trainloader_list st))) (Z st, z st) = Inr (Zt, zt)"
    for k Zt zt
    using update_prefix_inv [OF ema_closed_ensemble_row inv assms(2) set_take_subset that]
    by (rule table_inv_rows_sum_to_one)
  show ?thesis
    using a b update_Z_batches [of C d st] by blast
qed

lemma toy_in_order_init: "in_order_run toy w toy_init"
  unfolding toy_init_def by (rule in_order_run.start) (simp_all add: zero_row_def)

lemma toy_in_order_domain1: "in_order_run toy 1 toy_after_domain1"
  by (rule in_order_run.domain [OF toy_in_order_init [of 1] order_refl toy_adapt_domain1])

lemma toy_update_first:
  "update_Z toy 2 toy_init
     = Inr (toy_init\<lparr>Z := [[0, 0], [1 / 2, 1 / 2]], z := [[0, 0], [1 / 2, 1 / 2]]\<rparr>)"
  by (simp add: run_defs toy_defs tensor_defs)

lemma toy_prefix_domain1:
  "update_batches (forward_eval toy (model toy_after_domain1)) (momentum toy_after_domain1)
     (take 1 (visited_batches 1 (trainloader_list toy_after_domain1)))
     (Z toy_after_domain1, z toy_after_domain1)
   = Inr ([[5 / 8, 3 / 8], [1 / 2, 1 / 2]], [[5 / 8, 3 / 8], [1 / 2, 1 / 2]])"
  by (simp add: run_defs toy_defs tensor_defs visited_batches_def batches_from_def)

theorem update_Z_rows_sum_to_one_witness:
  "in_order_run toy 1 toy_after_domain1 \<and> (1::int) \<le> 1
   \<and> update_batches (forward_eval toy (model toy_after_domain1)) (momentum toy_after_domain1)
       (take 1 (visited_batches 1 (trainloader_list toy_after_domain1)))
       (Z toy_after_domain1, z toy_after_domain1)
     = Inr ([[5 / 8, 3 / 8], [1 / 2, 1 / 2]], [[5 / 8, 3 / 8], [1 / 2, 1 / 2]])
   \<and> rows_sum_to_one [[5 / 8, 3 / 8], [1 / 2, 1 / 2]] [[5 / 8, 3 / 8], [1 / 2, 1 / 2]]
   \<and> in_order_run toy 2 toy_init \<and> (2::int) \<le> 2
   \<and> update_Z toy 2 toy_init
     = Inr (toy_init\<lparr>Z := [[0, 0], [1 / 2, 1 / 2]], z := [[0, 0], [1 / 2, 1 / 2]]\<rparr>)
   \<and> rows_sum_to_one [[0, 0], [1 / 2, 1 / 2]] [[0, 0], [1 / 2, 1 / 2]]"
proof -
  note A = update_Z_rows_sum_to_one [OF toy_in_order_domain1 order_refl]
  note B = update_Z_rows_sum_to_one [OF toy_in_order_init [of 2] order_refl]
  have a: "rows_sum_to_one [[5 / 8, 3 / 8], [1 / 2, 1 / 2]] [[5 / 8, 3 / 8], [1 / 2, 1 / 2]]"
    using A toy_prefix_domain1 by blast
  have "rows_sum_to_one
      (Z (toy_init\<lparr>Z := [[0, 0], [1 / 2, 1 / 2]], z := [[0, 0], [1 / 2, 1 / 2]]\<rparr>))
      (z (toy_init\<lparr>Z := [[0, 0], [1 / 2, 1 / 2]], z := [[0, 0], [1 / 2, 1 / 2]]\<rparr>))"
    using B toy_update_first by blast
  then have b: "rows_sum_to_one [[0, 0], [1 / 2, 1 / 2]] [[0, 0], [1 / 2, 1 / 2]]"
    by simp
  show ?thesis
    using a b toy_in_order_domain1 toy_in_order_init [of 2] toy_prefix_domain1 toy_update_first
    by blast
qed

subsection \<open>Zero rows\<close>

lemma ema_rows_Inl: "ema_rows mom old probs = Inl e \<Longrightarrow> e = RuntimeError"
  by (induction mom old probs rule: ema_rows.induct)
     (auto simp: ema_row_def split: sum.splits if_splits)

lemma gather_Inl: "gather T idx = Inl e \<Longrightarrow> e = IndexError"
  by (auto simp: gather_def split: if_splits)

lemma scatter_Inl: "scatter T idx rows = Inl e \<Longrightarrow> e = IndexError \<or> e = RuntimeError"
  by (auto simp: scatter_def split: if_splits)

lemma update_batch_Inl:
  "update_batch fwd mom b T = Inl e \<Longrightarrow> e = IndexError \<or> e = RuntimeError"
  by (auto simp: update_batch_def Let_def normalize_rows_Inr
           dest: ema_rows_Inl gather_Inl scatter_Inl split: sum.splits)

lemma update_batches_Inl:
  "update_batches fwd mom bs T = Inl e \<Longrightarrow> e = IndexError \<or> e = RuntimeError"
  by (induction bs arbitrary: T) (auto dest: update_batch_Inl split: sum.splits)

lemma update_Z_Inl: "update_Z C d st = Inl e \<Longrightarrow> e = IndexError \<or> e = RuntimeError"
  by (auto simp: update_Z_batches dest: update_batches_Inl split: sum.splits)

lemma update_batches_frame:
  "update_batches fwd mom bs (Zt, zt) = Inr (Zt', zt') \<Longrightarrow>
     length Zt' = length Zt
     \<and> (\<forall>i. length (zt' ! i) = length (zt ! i))
     \<and> (\<forall>i\<in>(\<Union>b\<in>set bs. set (ids b)).
           \<exists>v. normalize_l1 (Zt' ! i) = Inr v \<and> zt' ! i = fit_row (length (zt ! i)) v
             \<and> (length v = length (zt ! i) \<or> length v = 1))
     \<and> (\<forall>i. i \<notin> (\<Union>b\<in>set bs. set (ids b)) \<longrightarrow> Zt' ! i = Zt ! i \<and> zt' ! i = zt ! i)"
proof (induction bs arbitrary: Zt zt)
  case Nil
  then show ?case by simp
next
  case (Cons b bs)
  from Cons.prems obtain Z1 z1 where b: "update_batch fwd mom b (Zt, zt) = Inr (Z1, z1)"
    and rest: "update_batches fwd mom bs (Z1, z1) = Inr (Zt', zt')"
    by (auto split: sum.splits)
  note U = update_batch_inv [OF b]
  note R = Cons.IH [OF rest]
  have l: "length Zt' = length Zt"
    using U R by simp
  have w1: "length (z1 ! i) = length (zt ! i)" for i
    using U by blast
  have w: "length (zt' ! i) = length (zt ! i)" for i
    using R w1 by simp
  have n: "\<exists>v. normalize_l1 (Zt' ! i) = Inr v \<and> zt' ! i = fit_row (length (zt ! i)) v
             \<and> (length v = length (zt ! i) \<or> length v = 1)"
    if "i \<in> (\<Union>b\<in>set (b # bs). set (ids b))" for i
  proof (cases "i \<in> (\<Union>b\<in>set bs. set (ids b))")
    case True
    with R have "\<exists>v. normalize_l1 (Zt' ! i) = Inr v \<and> zt' ! i = fit_row (length (z1 ! i)) v
             \<and> (length v = length (z1 ! i) \<or> length v = 1)"
      by blast
    then show ?thesis
      by (simp add: w1)
  next
    case False
    then have "Zt' ! i = Z1 ! i \<and> zt' ! i = z1 ! i"
      using R by blast
    moreover have "i \<in> set (ids b)"
      using that False by simp
    ultimately show ?thesis
      using U by simp
  qed
  have k: "Zt' ! i = Zt ! i \<and> zt' ! i = zt ! i" if "i \<notin> (\<Union>b\<in>set (b # bs). set (ids b))" for i
  proof -
    have "i \<notin> (\<Union>b\<in>set bs. set (ids b))" "i \<notin> set (ids b)"
      using that by simp_all
    then show ?thesis
      using R U by simp
  qed
  show ?case
    using l w n k by blast
qed

lemma fit_row_zero:
  assumes "zero_row v" and "length v = n \<or> length v = 1"
  shows "zero_row (fit_row n v)"
proof (cases "length v = n")
  case True
  then show ?thesis
    using assms(1) by (simp add: fit_row_def)
next
  case False
  then obtain x where "v = [x]"
    using assms(2) by (cases v) auto
  then show ?thesis
    using assms(1) False by (simp add: fit_row_def zero_row_def list_all_iff)
qed

text \<open>
  C10: the ensemble update never ends in a division by zero or in a non-finite row,
  whatever the state: \<^verbatim>\<open>F.normalize\<close> divides by the norm clamped from below by
  \<open>eps\<close>, so an all-zero row is normalized to itself. After an update that returns, a
  sample id whose row of \<open>Z\<close> is all-zero has, if the update wrote it, an all-zero row of
  \<open>z\<close>, the normalization of that row of \<open>Z\<close> as the assignment writes it; if the update
  did not visit it, rows of \<open>Z\<close> and \<open>z\<close> that are the ones before the update. On a run in
  domain order the row of \<open>z\<close> of every all-zero row of \<open>Z\<close> is that all-zero row.
\<close>

theorem zero_row_normalization:
  "update_Z C d st \<noteq> Inl NonFinite \<and> update_Z C d st \<noteq> Inl ZeroDivisionError
   \<and> (\<forall>r. zero_row r \<longrightarrow> normalize_l1 r = Inr r)
   \<and> (\<forall>s1 i. update_Z C d st = Inr s1 \<and> zero_row (Z s1 ! i) \<longrightarrow>
        (if i \<in> touched_ids d (trainloader_list st)
         then zero_row (z s1 ! i)
           \<and> (\<exists>v. normalize_l1 (Z s1 ! i) = Inr v \<and> z s1 ! i = fit_row (length (z st ! i)) v)
         else Z s1 ! i = Z st ! i \<and> z s1 ! i = z st ! i))
   \<and> (\<forall>w s1 i. in_order_run C w st \<and> w \<le> d \<and> update_Z C d st = Inr s1
          \<and> i < length (Z s1) \<and> zero_row (Z s1 ! i) \<longrightarrow>
        i < length (z s1) \<and> z s1 ! i = Z s1 ! i)"
proof -
  have a: "update_Z C d st \<noteq> Inl NonFinite \<and> update_Z C d st \<noteq> Inl ZeroDivisionError"
    using update_Z_Inl [of C d st] by auto
  have b: "\<forall>r. zero_row r \<longrightarrow> normalize_l1 r = Inr r"
    using normalize_l1_zero by blast
  have c: "if i \<in> touched_ids d (trainloader_list st)
         then zero_row (z s1 ! i)
           \<and> (\<exists>v. normalize_l1 (Z s1 ! i) = Inr v \<and> z s1 ! i = fit_row (length (z st ! i)) v)
         else Z s1 ! i = Z st ! i \<and> z s1 ! i = z st ! i"
    if upd: "update_Z C d st = Inr s1" and zr: "zero_row (Z s1 ! i)" for s1 i
  proof -
    note F = update_batches_frame [OF conjunct1 [OF update_Z_Inr [OF upd]]]
    show ?thesis
    proof (cases "i \<in> touched_ids d (trainloader_list st)")
      case True
      then obtain v where v: "normalize_l1 (Z s1 ! i) = Inr v"
        "z s1 ! i = fit_row (length (z st ! i)) v"
        "length v = length (z st ! i) \<or> length v = 1"
        using F unfolding touched_ids_def by blast
      have "v = Z s1 ! i"
        using v(1) normalize_l1_zero [OF zr] by simp
      then have "zero_row (z s1 ! i)"
        using fit_row_zero [OF _ v(3)] zr v(2) by simp
      then show ?thesis
        using True v by auto
    next
      case False
      then have "Z s1 ! i = Z st ! i \<and> z s1 ! i = z st ! i"
        using F unfolding touched_ids_def by blast
      then show ?thesis
        using False by simp
    qed
  qed
  have e: "i < length (z s1) \<and> z s1 ! i = Z s1 ! i"
    if run: "in_order_run C w st" and le: "w \<le> d" and upd: "update_Z C d st = Inr s1"
      and i: "i < length (Z s1)" and zr: "zero_row (Z s1 ! i)" for w s1 i
  proof -
    note t = update_Z_table_inv [OF ema_closed_ensemble_row
        in_order_run_inv [OF ema_closed_ensemble_row run] le upd]
    have "normalize_l1 (Z s1 ! i) = Inr (z s1 ! i)" and "i < length (z s1)"
      using t i by (simp_all add: table_inv_def)
    then show ?thesis
      using normalize_l1_zero [OF zr] by simp
  qed
  show ?thesis
    using a b c e by blast
qed

lemma toy_still_candidate:
  "0 \<le> q \<Longrightarrow> q \<le> 1 \<Longrightarrow>
   adapt_train_eval toy 2 q 1 toy_still = Inr (toy_still_after_domain2, ln 3, Fin 0)"
  by (simp add: run_defs toy_defs still_defs tensor_defs)

lemma toy_still_update:
  "update_Z toy 1 toy_still_after_domain2 = Inr toy_still_after_domain2"
  by (simp add: run_defs toy_defs still_defs tensor_defs)

lemma toy_still_touched:
  "0 \<in> touched_ids 1 (trainloader_list toy_still_after_domain2)"
  by (simp add: touched_ids_def visited_batches_def batches_from_def still_defs init_def
      enumerate_eq_zip ids_def)

theorem zero_row_normalization_witness:
  "adapt_train_eval toy 2 (1 / 10) 1 toy_still = Inr (toy_still_after_domain2, ln 3, Fin 0)
   \<and> update_Z toy 1 toy_still_after_domain2 = Inr toy_still_after_domain2
   \<and> 0 \<in> touched_ids 1 (trainloader_list toy_still_after_domain2)
   \<and> Z toy_still_after_domain2 ! 0 = [0, 0] \<and> zero_row [0, 0]
   \<and> normalize_l1 [0, 0] = Inr [0, 0]
   \<and> zero_row (z toy_still_after_domain2 ! 0)
   \<and> in_order_run toy 2 toy_init \<and> (2::int) \<le> 2
   \<and> update_Z toy 2 toy_init
     = Inr (toy_init\<lparr>Z := [[0, 0], [1 / 2, 1 / 2]], z := [[0, 0], [1 / 2, 1 / 2]]\<rparr>)
   \<and> z (toy_init\<lparr>Z := [[0, 0], [1 / 2, 1 / 2]], z := [[0, 0], [1 / 2, 1 / 2]]\<rparr>) ! 0
     = [0, 0]"
proof -
  note T = zero_row_normalization [where C = toy and d = 1 and st = toy_still_after_domain2]
  note U = zero_row_normalization [where C = toy and d = 2 and st = toy_init]
  have c: "adapt_train_eval toy 2 (1 / 10) 1 toy_still = Inr (toy_still_after_domain2, ln 3, Fin 0)"
    by (rule toy_still_candidate) simp_all
  have r: "Z toy_still_after_domain2 ! 0 = [0, 0]"
    by (simp add: still_defs init_def)
  have zr: "zero_row [0, 0]"
    by (simp add: zero_row_def)
  then have n: "normalize_l1 [0, 0] = Inr [0, 0]"
    using T by blast
  have "zero_row (Z toy_still_after_domain2 ! 0)"
    using zr r by simp
  then have t: "zero_row (z toy_still_after_domain2 ! 0)"
    using T toy_still_update toy_still_touched by meson
  have le: "(2::int) \<le> 2"
    by simp
  have i: "0 < length (Z (toy_init\<lparr>Z := [[0, 0], [1 / 2, 1 / 2]], z := [[0, 0], [1 / 2, 1 / 2]]\<rparr>))"
    and z0: "zero_row (Z (toy_init\<lparr>Z := [[0, 0], [1 / 2, 1 / 2]],
                                   z := [[0, 0], [1 / 2, 1 / 2]]\<rparr>) ! 0)"
    by (simp_all add: zero_row_def)
  have "z (toy_init\<lparr>Z := [[0, 0], [1 / 2, 1 / 2]], z := [[0, 0], [1 / 2, 1 / 2]]\<rparr>) ! 0
      = Z (toy_init\<lparr>Z := [[0, 0], [1 / 2, 1 / 2]], z := [[0, 0], [1 / 2, 1 / 2]]\<rparr>) ! 0"
    using U toy_in_order_init [of 2] le toy_update_first i z0 by meson
  then have u: "z (toy_init\<lparr>Z := [[0, 0], [1 / 2, 1 / 2]], z := [[0, 0], [1 / 2, 1 / 2]]\<rparr>) ! 0
      = [0, 0]"
    by simp
  show ?thesis
    using c r zr n t u le toy_still_update toy_still_touched toy_in_order_init [of 2]
      toy_update_first
    by blast
qed

section \<open>Results: threshold and mask\<close>

lemma prob_row_normalize:
  assumes "normalize_l1 r = Inr v" and "zero_row r \<or> prob_row r"
  shows "v = r"
proof -
  have "normalize_l1 r = Inr r"
  proof (cases "zero_row r")
    case True
    then show ?thesis
      by (rule normalize_l1_zero)
  next
    case False
    then have "prob_row r"
      using assms(2) by simp
    then show ?thesis
      by (intro normalize_l1_unit) (simp_all add: prob_row_def list_all_iff)
  qed
  then show ?thesis
    using assms(1) by simp
qed

lemma table_inv_equal:
  assumes "table_inv prob_row mom S W (Zt, zt)"
  shows "zt = Zt"
proof (rule nth_equalityI)
  show "length zt = length Zt"
    using assms by (simp add: table_inv_def)
  show "zt ! i = Zt ! i" if "i < length zt" for i
    using assms that prob_row_normalize [of "Zt ! i" "zt ! i"] by (simp add: table_inv_def)
qed

lemma run_tables_equal:
  assumes "in_order_run C w st" and "w \<le> d" and "\<forall>m x. length (forward_eval C m x) \<noteq> 1"
    and "update_Z C d st = Inr s1"
  shows "z s1 = Z s1"
  using update_Z_table_inv [OF ema_closed_prob_row [OF assms(3)]
      in_order_run_inv [OF ema_closed_prob_row [OF assms(3)] assms(1)] assms(2,4)]
  by (rule table_inv_equal)

lemma adapt_train_eval_Inr:
  assumes "adapt_train_eval C d q ep st = Inr (st', m, sc)"
  shows "\<exists>s1 loader alpha opt pl.
           update_Z C d st = Inr s1
           \<and> py_index (trainloader_list st) d = Inr loader
           \<and> calc_alpha (Z s1) loader q = Inr alpha
           \<and> train_epochs C (z s1) loader alpha (nat ep) (model st, new_optimizer C (model st), None)
               = Inr (m, opt, Some (sc, pl))"
proof -
  from assms obtain s1 loader alpha opt pl where upd: "update_Z C d st = Inr s1"
    and l: "py_index (trainloader_list s1) d = Inr loader"
    and a: "calc_alpha (Z s1) loader q = Inr alpha"
    and t: "train_epochs C (z s1) loader alpha (nat ep) (model s1, new_optimizer C (model s1), None)
               = Inr (m, opt, Some (sc, pl))"
    by (auto simp: adapt_train_eval_def split: sum.splits option.splits prod.splits)
  note s1 = conjunct2 [OF update_Z_Inr [OF upd]]
  have f: "model s1 = model st" "trainloader_list s1 = trainloader_list st"
    by (subst s1, simp)+
  show ?thesis
    using upd l a t unfolding f by blast
qed

lemma gather_batches_Inr:
  "gather_batches T bs = Inr tp \<Longrightarrow>
     concat tp = map (\<lambda>i. T ! i) (concat (map ids bs))
     \<and> (\<forall>b\<in>set bs. \<forall>i\<in>set (ids b). i < length T)"
proof (induction bs arbitrary: tp)
  case Nil
  then show ?case by simp
next
  case (Cons b bs)
  from Cons.prems obtain rows rest where g: "gather T (ids b) = Inr rows"
    and r: "gather_batches T bs = Inr rest" and tp: "tp = rows # rest"
    by (auto split: sum.splits)
  show ?case
    using gather_Inr [OF g] Cons.IH [OF r] by (simp add: tp)
qed

lemma calc_alpha_Inr:
  assumes "calc_alpha Zt loader q = Inr alpha"
  shows "quantile (map (\<lambda>i. amax (Zt ! i) - amin (Zt ! i)) (concat (map ids loader))) q = Inr alpha
       \<and> (\<forall>b\<in>set loader. \<forall>i\<in>set (ids b). i < length Zt)"
proof -
  from assms obtain tp conf where g: "gather_batches Zt loader = Inr tp"
    and c: "confidence (concat tp) = Inr conf" and q: "quantile conf q = Inr alpha"
    by (auto simp: calc_alpha_def split: sum.splits if_splits)
  note G = gather_batches_Inr [OF g]
  have "conf = map (\<lambda>i. amax (Zt ! i) - amin (Zt ! i)) (concat (map ids loader))"
    using confidence_Inr [OF c] G by (simp add: o_def)
  then show ?thesis
    using q G by simp
qed

lemma filter_sort_length: "length (filter P (sort xs)) = length (filter P xs)"
  by (simp add: filter_sort)

lemma filter_suffix_all:
  assumes "\<forall>j. h \<le> j \<and> j < length s \<longrightarrow> P (s ! j)"
  shows "length s - h \<le> length (filter P s)"
proof -
  have "\<forall>x\<in>set (drop h s). P x"
    using assms by (auto simp: in_set_conv_nth)
  then have "filter P (drop h s) = drop h s"
    by (simp add: filter_id_conv)
  moreover have "filter P s = filter P (take h s) @ filter P (drop h s)"
    by (metis append_take_drop_id filter_append)
  ultimately show ?thesis
    by simp
qed

lemma filter_prefix_all:
  assumes "\<forall>j<k. P (s ! j)" and "k \<le> length s"
  shows "k \<le> length (filter P s)"
proof -
  have "\<forall>x\<in>set (take k s). P x"
    using assms by (auto simp: in_set_conv_nth)
  then have "filter P (take k s) = take k s"
    by (simp add: filter_id_conv)
  moreover have "filter P s = filter P (take k s) @ filter P (drop k s)"
    by (metis append_take_drop_id filter_append)
  ultimately show ?thesis
    using assms(2) by simp
qed

lemma quantile_Inr:
  assumes "quantile xs q = Inr alpha"
  shows "length xs - nat \<lceil>q * real (length xs - 1)\<rceil> \<le> length (filter (\<lambda>x. alpha \<le> x) xs)
       \<and> nat \<lfloor>q * real (length xs - 1)\<rfloor> + 1 \<le> length (filter (\<lambda>x. x \<le> alpha) xs)"
proof -
  define s where "s = sort xs"
  define pos where "pos = q * real (length xs - 1)"
  define lo where "lo = nat \<lfloor>pos\<rfloor>"
  define hi where "hi = nat \<lceil>pos\<rceil>"
  from assms have ne: "xs \<noteq> []" and q: "0 \<le> q" "q \<le> 1"
    and alpha: "alpha = s ! lo + (pos - real lo) * (s ! hi - s ! lo)"
    by (auto simp: quantile_def Let_def s_def pos_def lo_def hi_def split: if_splits)
  have pos0: "0 \<le> pos"
    unfolding pos_def using q by simp
  have "pos \<le> 1 * real (length xs - 1)"
    unfolding pos_def using q by (intro mult_right_mono) simp_all
  then have posn: "pos \<le> real (length xs - 1)"
    by simp
  have lohi: "lo \<le> hi"
    unfolding lo_def hi_def by (intro nat_mono) linarith
  have "\<lceil>pos\<rceil> \<le> int (length xs - 1)"
    using posn by (simp add: ceiling_le_iff)
  then have hin: "hi \<le> length xs - 1"
    unfolding hi_def by linarith
  have len: "0 < length xs"
    using ne by simp
  have ls: "length s = length xs"
    by (simp add: s_def)
  have hi: "hi < length s"
    unfolding ls using hin len by linarith
  have lo: "lo < length s"
    using lohi hi by linarith
  have rlo: "real lo = of_int \<lfloor>pos\<rfloor>"
    unfolding lo_def using pos0 by simp
  have t0: "0 \<le> pos - real lo"
    unfolding rlo by linarith
  have t1: "pos - real lo \<le> 1"
    unfolding rlo by linarith
  have srt: "sorted s"
    by (simp add: s_def)
  have d: "0 \<le> s ! hi - s ! lo"
    using sorted_nth_mono [OF srt lohi hi] by simp
  have "(pos - real lo) * (s ! hi - s ! lo) \<le> 1 * (s ! hi - s ! lo)"
    using t1 d by (rule mult_right_mono)
  then have up: "alpha \<le> s ! hi"
    unfolding alpha by simp
  have "0 \<le> (pos - real lo) * (s ! hi - s ! lo)"
    using t0 d by (rule mult_nonneg_nonneg)
  then have dn: "s ! lo \<le> alpha"
    unfolding alpha by simp
  have "\<forall>j. hi \<le> j \<and> j < length s \<longrightarrow> alpha \<le> s ! j"
    using up sorted_nth_mono [OF srt] by (meson order_trans)
  then have a: "length s - hi \<le> length (filter (\<lambda>x. alpha \<le> x) s)"
    by (rule filter_suffix_all)
  have "\<forall>j<lo + 1. s ! j \<le> alpha"
  proof (intro allI impI)
    fix j assume "j < lo + 1"
    then have "j \<le> lo" by simp
    from sorted_nth_mono [OF srt this lo] dn show "s ! j \<le> alpha"
      by simp
  qed
  moreover have "lo + 1 \<le> length s"
    using lo by simp
  ultimately have b: "lo + 1 \<le> length (filter (\<lambda>x. x \<le> alpha) s)"
    by (rule filter_prefix_all)
  have "length xs - hi \<le> length (filter (\<lambda>x. alpha \<le> x) xs)"
    using a unfolding s_def ls [unfolded s_def] filter_sort_length .
  moreover have "lo + 1 \<le> length (filter (\<lambda>x. x \<le> alpha) xs)"
    using b unfolding s_def filter_sort_length .
  ultimately show ?thesis
    unfolding lo_def hi_def pos_def by blast
qed

lemma kept_count_sum:
  "(\<Sum>b\<leftarrow>bs. kept_count zt alpha b)
     = length (filter (\<lambda>i. alpha \<le> amax (zt ! i) - amin (zt ! i)) (concat (map ids bs)))"
  by (induction bs) (simp_all add: kept_count_def)

lemma toy_width: "\<forall>m x. length (forward_eval toy m x) \<noteq> 1"
  by (simp add: toy_def)

lemma toy_alpha_domain2:
  "calc_alpha [[1 / 2, 1 / 2], [5 / 8, 3 / 8]] [[(1, (), 0)]] (1 / 10) = Inr (1 / 4)
   \<and> kept_count [[1 / 2, 1 / 2], [5 / 8, 3 / 8]] (1 / 4) [(1 :: nat, (), 0 :: nat)] = 1"
  by (simp add: calc_alpha_def kept_count_def tensor_defs)

text \<open>
  C5, as stated: in some ensemble state with \<open>z\<close> the normalization of \<open>Z\<close>, a sample
  whose confidence on its row of \<open>Z\<close> is at least alpha has a confidence on its row of
  \<open>z\<close> below alpha. On a run in domain order, with a classifier that has no single-logit
  output, no ensemble update leaves such a state, for any threshold and any sample id: the
  rows of \<open>Z\<close> are all-zero or probability vectors, which the normalization leaves as
  they are. In the instance, the update of the first candidate on domain 2 leaves sample 1
  the row \<open>[5/8, 3/8]\<close> in \<open>Z\<close> and in \<open>z\<close>, alpha is 1/4, and the mask keeps the sample.
\<close>

theorem mask_mismatch_counterexample:
  "\<not> (\<exists>(C :: ('m, 'o, 'x) collab) w st d s1 alpha i. in_order_run C w st \<and> w \<le> d
        \<and> (\<forall>m x. length (forward_eval C m x) \<noteq> 1)
        \<and> update_Z C d st = Inr s1
        \<and> alpha \<le> amax (Z s1 ! i) - amin (Z s1 ! i)
        \<and> amax (z s1 ! i) - amin (z s1 ! i) < alpha)
   \<and> update_Z toy 2 toy_after_domain1
       = Inr (toy_after_domain1\<lparr>Z := [[1 / 2, 1 / 2], [5 / 8, 3 / 8]],
                                 z := [[1 / 2, 1 / 2], [5 / 8, 3 / 8]]\<rparr>)
   \<and> calc_alpha [[1 / 2, 1 / 2], [5 / 8, 3 / 8]] [[(1, (), 0)]] (1 / 10) = Inr (1 / 4)
   \<and> kept_count [[1 / 2, 1 / 2], [5 / 8, 3 / 8]] (1 / 4) [(1 :: nat, (), 0 :: nat)] = 1"
proof -
  have "\<not> (alpha \<le> amax (Z s1 ! i) - amin (Z s1 ! i)
           \<and> amax (z s1 ! i) - amin (z s1 ! i) < alpha)"
    if "in_order_run C w st" and "w \<le> d" and "\<forall>m x. length (forward_eval C m x) \<noteq> 1"
      and "update_Z C d st = Inr s1"
    for C :: "('m, 'o, 'x) collab" and w st d s1 alpha i
    using run_tables_equal [OF that] by simp
  then have "\<not> (\<exists>(C :: ('m, 'o, 'x) collab) w st d s1 alpha i. in_order_run C w st \<and> w \<le> d
        \<and> (\<forall>m x. length (forward_eval C m x) \<noteq> 1)
        \<and> update_Z C d st = Inr s1
        \<and> alpha \<le> amax (Z s1 ! i) - amin (Z s1 ! i)
        \<and> amax (z s1 ! i) - amin (z s1 ! i) < alpha)"
    by blast
  then show ?thesis
    using toy_update_domain2 toy_alpha_domain2 by blast
qed

text \<open>
  C5, amended: when \<^verbatim>\<open>_adapt_train_eval\<close> returns on a run in domain order (a
  classifier with no single-logit output, exact arithmetic), alpha is the quantile of the
  confidences of the rows of \<open>Z\<close> over the samples of the domain's loader, the table \<open>z\<close>
  that the training reads equals \<open>Z\<close>, and the mask of \<^verbatim>\<open>_pseudo_label_loss\<close> on a
  batch of that loader keeps exactly the samples whose confidence on \<open>Z\<close> is at least alpha:
  over the loader these are at least \<open>n - \<lceil>q (n - 1)\<rceil>\<close> of its \<open>n\<close> samples, the top
  fraction the quantile was computed over.
\<close>

theorem mask_keeps_quantile:
  assumes "in_order_run C w st" and "w \<le> d" and "\<forall>m x. length (forward_eval C m x) \<noteq> 1"
    and "adapt_train_eval C d q ep st = Inr (st', m, sc)"
  shows "\<exists>s1 loader alpha opt pl.
           update_Z C d st = Inr s1
           \<and> py_index (trainloader_list st) d = Inr loader
           \<and> calc_alpha (Z s1) loader q = Inr alpha
           \<and> train_epochs C (z s1) loader alpha (nat ep) (model st, new_optimizer C (model st), None)
               = Inr (m, opt, Some (sc, pl))
           \<and> z s1 = Z s1
           \<and> quantile (map (\<lambda>i. amax (Z s1 ! i) - amin (Z s1 ! i)) (concat (map ids loader))) q
               = Inr alpha
           \<and> (\<forall>b\<in>set loader.
                 gather (z s1) (ids b) = Inr (map (\<lambda>i. Z s1 ! i) (ids b))
                 \<and> (\<forall>lg loss msk.
                       pseudo_label_loss lg (map (\<lambda>i. Z s1 ! i) (ids b)) alpha = Inr (loss, msk)
                       \<longrightarrow> msk = map (\<lambda>i. alpha \<le> amax (Z s1 ! i) - amin (Z s1 ! i)) (ids b)))
           \<and> (\<Sum>b\<leftarrow>loader. kept_count (z s1) alpha b)
               = length (filter (\<lambda>i. alpha \<le> amax (Z s1 ! i) - amin (Z s1 ! i))
                           (concat (map ids loader)))
           \<and> length (concat (map ids loader))
                 - nat \<lceil>q * real (length (concat (map ids loader)) - 1)\<rceil>
               \<le> (\<Sum>b\<leftarrow>loader. kept_count (z s1) alpha b)"
proof -
  from adapt_train_eval_Inr [OF assms(4)] obtain s1 loader alpha opt pl where
    upd: "update_Z C d st = Inr s1" and l: "py_index (trainloader_list st) d = Inr loader"
    and a: "calc_alpha (Z s1) loader q = Inr alpha"
    and t: "train_epochs C (z s1) loader alpha (nat ep) (model st, new_optimizer C (model st), None)
               = Inr (m, opt, Some (sc, pl))"
    by blast
  let ?conf = "\<lambda>i. amax (Z s1 ! i) - amin (Z s1 ! i)"
  let ?ids = "concat (map ids loader)"
  have eq: "z s1 = Z s1"
    by (rule run_tables_equal [OF assms(1-3) upd])
  note A = calc_alpha_Inr [OF a]
  have qu: "quantile (map ?conf ?ids) q = Inr alpha"
    using A by simp
  have g: "gather (z s1) (ids b) = Inr (map (\<lambda>i. Z s1 ! i) (ids b))" if "b \<in> set loader" for b
    using A that by (simp add: eq gather_def list_all_iff)
  have mk: "msk = map (\<lambda>i. alpha \<le> ?conf i) (ids b)"
    if "pseudo_label_loss lg (map (\<lambda>i. Z s1 ! i) (ids b)) alpha = Inr (loss, msk)"
    for b lg loss msk
    using pseudo_label_loss_mask [OF that] by (simp add: o_def)
  have k: "(\<Sum>b\<leftarrow>loader. kept_count (z s1) alpha b) = length (filter (\<lambda>i. alpha \<le> ?conf i) ?ids)"
    by (simp add: kept_count_sum eq)
  have "length (map ?conf ?ids) - nat \<lceil>q * real (length (map ?conf ?ids) - 1)\<rceil>
      \<le> length (filter (\<lambda>x. alpha \<le> x) (map ?conf ?ids))"
    using quantile_Inr [OF qu] by blast
  then have bound: "length ?ids - nat \<lceil>q * real (length ?ids - 1)\<rceil>
      \<le> (\<Sum>b\<leftarrow>loader. kept_count (z s1) alpha b)"
    by (simp add: k filter_map o_def)
  show ?thesis
    using upd l a t eq qu g mk k bound by blast
qed

theorem mask_keeps_quantile_witness:
  "in_order_run toy 1 toy_after_domain1 \<and> (1::int) \<le> 2
   \<and> (\<forall>m x. length (forward_eval toy m x) \<noteq> 1)
   \<and> adapt_train_eval toy 2 (1 / 10) 1 toy_after_domain1
       = Inr (toy_after_candidate1, ln 3, Fin 0)
   \<and> update_Z toy 2 toy_after_domain1
       = Inr (toy_after_domain1\<lparr>Z := [[1 / 2, 1 / 2], [5 / 8, 3 / 8]],
                                 z := [[1 / 2, 1 / 2], [5 / 8, 3 / 8]]\<rparr>)
   \<and> calc_alpha [[1 / 2, 1 / 2], [5 / 8, 3 / 8]] [[(1, (), 0)]] (1 / 10) = Inr (1 / 4)
   \<and> kept_count [[1 / 2, 1 / 2], [5 / 8, 3 / 8]] (1 / 4) [(1 :: nat, (), 0 :: nat)] = 1
   \<and> (\<exists>s1 loader alpha opt pl.
           update_Z toy 2 toy_after_domain1 = Inr s1
           \<and> py_index (trainloader_list toy_after_domain1) 2 = Inr loader
           \<and> calc_alpha (Z s1) loader (1 / 10) = Inr alpha
           \<and> train_epochs toy (z s1) loader alpha (nat 1)
                 (model toy_after_domain1, new_optimizer toy (model toy_after_domain1), None)
               = Inr (ln 3, opt, Some (Fin 0, pl))
           \<and> z s1 = Z s1
           \<and> quantile (map (\<lambda>i. amax (Z s1 ! i) - amin (Z s1 ! i)) (concat (map ids loader)))
                 (1 / 10)
               = Inr alpha
           \<and> (\<forall>b\<in>set loader.
                 gather (z s1) (ids b) = Inr (map (\<lambda>i. Z s1 ! i) (ids b))
                 \<and> (\<forall>lg loss msk.
                       pseudo_label_loss lg (map (\<lambda>i. Z s1 ! i) (ids b)) alpha = Inr (loss, msk)
                       \<longrightarrow> msk = map (\<lambda>i. alpha \<le> amax (Z s1 ! i) - amin (Z s1 ! i)) (ids b)))
           \<and> (\<Sum>b\<leftarrow>loader. kept_count (z s1) alpha b)
               = length (filter (\<lambda>i. alpha \<le> amax (Z s1 ! i) - amin (Z s1 ! i))
                           (concat (map ids loader)))
           \<and> length (concat (map ids loader))
                 - nat \<lceil>1 / 10 * real (length (concat (map ids loader)) - 1)\<rceil>
               \<le> (\<Sum>b\<leftarrow>loader. kept_count (z s1) alpha b))"
proof -
  have le: "(1::int) \<le> 2"
    by simp
  have c: "adapt_train_eval toy 2 (1 / 10) 1 toy_after_domain1
      = Inr (toy_after_candidate1, ln 3, Fin 0)"
    by (rule toy_candidate1) simp_all
  note T = mask_keeps_quantile [OF toy_in_order_domain1 le toy_width c]
  show ?thesis
    using T toy_in_order_domain1 le toy_width c toy_update_domain2 toy_alpha_domain2 by blast
qed

end
